theory Spec2Isabelle
  imports Main "HOL-Library.Sublist"
begin

unbundle bit_operations_syntax

text \<open>
  NTRIP Checker PRO streams GNSS correction data from NTRIP casters. This theory embeds
  the parts of \<^verbatim>\<open>ntrip_checker_pro_v5_0.py\<close> and \<^verbatim>\<open>ntrip_checker_pro_v5_2.py\<close> that keep a
  connection alive and account for what it receives: \<^verbatim>\<open>NTRIPClient.run\<close> and \<^verbatim>\<open>stop\<close> (both
  versions), \<^verbatim>\<open>extract_satellite_info\<close>, and the handlers \<^verbatim>\<open>on_data\<close>, \<^verbatim>\<open>start_connection\<close>,
  \<^verbatim>\<open>remove_caster_by_name\<close> and \<^verbatim>\<open>show_edit_dialog\<close> of the main window. The socket, the
  clock, the dialogs and the RTCM reader of \<^verbatim>\<open>pyrtcm\<close> are outside the program: what they
  return is an input of the model. Widgets, files and logging are left out.
\<close>

section \<open>Byte strings and text\<close>

text \<open>
  Python \<^verbatim>\<open>bytes\<close> and (8-bit) \<^verbatim>\<open>str\<close> values are lists of characters. The operator
  \<^verbatim>\<open>sub in s\<close> on both types asks for a contiguous occurrence of \<^verbatim>\<open>sub\<close> in \<^verbatim>\<open>s\<close>.
\<close>

type_synonym bytes = string

fun py_in :: "'a list \<Rightarrow> 'a list \<Rightarrow> bool" where
  "py_in sub [] = (sub = [])"
| "py_in sub (x # xs) = (prefix sub (x # xs) \<or> py_in sub xs)"

text \<open>
  \<^verbatim>\<open>str.lower()\<close> on the code points below 256: the capital letters of ASCII and of the
  Latin-1 block (all of \<^verbatim>\<open>0xC0..0xDE\<close> but the multiplication sign) move up by 32.
\<close>

definition lower_char :: "char \<Rightarrow> char" where
  "lower_char c =
     (let n = (of_char c :: nat)
      in if (65 \<le> n \<and> n \<le> 90) \<or> (192 \<le> n \<and> n \<le> 222 \<and> n \<noteq> 215)
         then char_of (n + 32) else c)"

definition py_lower :: "string \<Rightarrow> string" where
  "py_lower s = map lower_char s"

text \<open>\<^verbatim>\<open>str(n)\<close> for an integer: the decimal digits, with a minus sign when negative.\<close>

definition digit_char :: "nat \<Rightarrow> char" where
  "digit_char d = char_of (48 + d)"

fun dec_digits :: "nat \<Rightarrow> string" where
  "dec_digits n = (if n < 10 then [digit_char n] else dec_digits (n div 10) @ [digit_char (n mod 10)])"

declare dec_digits.simps [simp del]

definition str_of_int :: "int \<Rightarrow> string" where
  "str_of_int i = (if i < 0 then CHR ''-'' # dec_digits (nat (- i)) else dec_digits (nat i))"

section \<open>The caster connection: \<^verbatim>\<open>NTRIPClient\<close>\<close>

record caster =
  cname :: string
  host :: string
  port :: int
  mount :: string
  user :: string
  password :: string

text \<open>
  \<^verbatim>\<open>self.socket\<close> is \<^verbatim>\<open>None\<close> until a handshake succeeds; afterwards it holds a socket
  object, which \<^verbatim>\<open>close()\<close> closes but never removes.
\<close>

datatype sock = NoSocket | OpenSocket | ClosedSocket

record client =
  config :: caster
  running :: bool
  total_bytes :: int
  socket :: sock
  reconnect_attempts :: int
  stop_event :: bool
  buffer :: bytes
  user_stopped :: bool

text \<open>\<^verbatim>\<open>NTRIPClient.__init__\<close>\<close>

definition new_client :: "caster \<Rightarrow> client" where
  "new_client c =
     \<lparr>config = c, running = False, total_bytes = 0, socket = NoSocket,
      reconnect_attempts = 0, stop_event = False, buffer = [], user_stopped = False\<rparr>"

text \<open>
  The three Qt signals. A status text starts with a pictograph, kept here as a
  constructor, followed by a blank and ASCII text, kept as the string it is. (The two
  source files spell the four pictographs with different characters; each file tests for
  its own spelling, and the model identifies them.)
  \<^verbatim>\<open>data_signal\<close> always carries the empty payload.
\<close>

datatype icon = CheckMark | WarningSign | YellowCircle | RedCircle

datatype signal =
    Status string icon string
  | Data string
  | Disconnect string

text \<open>
  What the thread running \<^verbatim>\<open>run\<close> observes from outside, in the order it happens.
  The thread blocks in three places: in the connect/send/first \<^verbatim>\<open>recv(1024)\<close> section,
  in \<^verbatim>\<open>recv(4096)\<close> and in \<^verbatim>\<open>stop_event.wait(10)\<close>; a call of \<^verbatim>\<open>stop\<close> from another
  thread is taken to happen while \<^verbatim>\<open>run\<close> is blocked in one of them (or after it returned).
\<close>

datatype net_event =
    ConnectFail string    \<comment> \<open>connect, sendall or the header read raised; the text is \<^verbatim>\<open>str(e)\<close>\<close>
  | Handshake bytes       \<comment> \<open>\<^verbatim>\<open>header = s.recv(1024)\<close> returned\<close>
  | RecvData bytes        \<comment> \<open>\<^verbatim>\<open>data = s.recv(4096)\<close> returned (empty at end of stream)\<close>
  | RecvTimeout           \<comment> \<open>\<^verbatim>\<open>s.recv(4096)\<close> raised \<^verbatim>\<open>socket.timeout\<close>\<close>
  | RecvFail string       \<comment> \<open>\<^verbatim>\<open>s.recv(4096)\<close> raised another exception\<close>
  | WaitTimeout           \<comment> \<open>\<^verbatim>\<open>stop_event.wait(10)\<close> ran to its end and returned False\<close>
  | StopCall bool         \<comment> \<open>another thread called \<^verbatim>\<open>stop(user_initiated)\<close>\<close>

datatype pc = Connecting | Receiving | Waiting nat | Finished

record conf =
  at :: pc
  cl :: client
  out :: "signal list"

definition emit :: "signal \<Rightarrow> conf \<Rightarrow> conf" where
  "emit sg cf = cf\<lparr>out := out cf @ [sg]\<rparr>"

text \<open>
  The locked section of the read loop: \<^verbatim>\<open>self.total_bytes += len(data)\<close> and
  \<^verbatim>\<open>self.buffer.extend(data)\<close>.
\<close>

definition net_append :: "bytes \<Rightarrow> client \<Rightarrow> client" where
  "net_append data c =
     c\<lparr>total_bytes := total_bytes c + int (length data), buffer := buffer c @ data\<rparr>"

text \<open>\<^verbatim>\<open>NTRIPClient.stop\<close>\<close>

definition stop :: "bool \<Rightarrow> client \<Rightarrow> client" where
  "stop user_initiated c =
     c\<lparr>running := False, user_stopped := user_initiated, stop_event := True,
       socket := (if socket c = NoSocket then NoSocket else ClosedSocket)\<rparr>"

text \<open>The \<^verbatim>\<open>finally\<close> clause of the loop body.\<close>

definition finally_clause :: "client \<Rightarrow> client" where
  "finally_clause c =
     c\<lparr>running := False, socket := (if socket c = NoSocket then NoSocket else ClosedSocket)\<rparr>"

text \<open>The condition of the outer \<^verbatim>\<open>while\<close>.\<close>

definition loop_cond :: "client \<Rightarrow> bool" where
  "loop_cond c = (reconnect_attempts c \<le> 3 \<and> \<not> stop_event c \<and> \<not> user_stopped c)"

text \<open>After the outer loop: \<^verbatim>\<open>disconnect_signal\<close> is emitted and \<^verbatim>\<open>run\<close> returns.\<close>

definition leave_run :: "conf \<Rightarrow> conf" where
  "leave_run cf = (emit (Disconnect (cname (config (cl cf)))) cf)\<lparr>at := Finished\<rparr>"

text \<open>A \<^verbatim>\<open>break\<close> in the body of the outer loop: the \<^verbatim>\<open>finally\<close> clause runs, the loop ends.\<close>

definition break_outer :: "conf \<Rightarrow> conf" where
  "break_outer cf = leave_run (cf\<lparr>cl := finally_clause (cl cf)\<rparr>)"

text \<open>The outer loop tests its condition and either starts a connection attempt or ends.\<close>

definition enter_loop :: "conf \<Rightarrow> conf" where
  "enter_loop cf = (if loop_cond (cl cf) then cf\<lparr>at := Connecting\<rparr> else leave_run cf)"

text \<open>The body ends without \<^verbatim>\<open>break\<close>: \<^verbatim>\<open>finally\<close>, then the loop condition again.\<close>

definition next_iteration :: "conf \<Rightarrow> conf" where
  "next_iteration cf = enter_loop (cf\<lparr>cl := finally_clause (cl cf)\<rparr>)"

text \<open>
  The condition of the inner \<^verbatim>\<open>while\<close>; when it fails the inner loop ends and the
  \<^verbatim>\<open>break\<close> that follows it leaves the outer loop.
\<close>

definition stream_check :: "conf \<Rightarrow> conf" where
  "stream_check cf =
     (if running (cl cf) \<and> \<not> stop_event (cl cf) then cf\<lparr>at := Receiving\<rparr> else break_outer cf)"

text \<open>The classification of the lower-cased exception text.\<close>

definition error_type_of :: "string \<Rightarrow> string" where
  "error_type_of error_msg =
     (if py_in ''rejected'' error_msg \<or> py_in ''401'' error_msg \<or> py_in ''unauthorized'' error_msg
      then ''Authentication failed''
      else if py_in ''timeout'' error_msg \<or> py_in ''timed out'' error_msg
      then ''Connection timeout''
      else if py_in ''refused'' error_msg
      then ''Connection refused''
      else ''Network error'')"

text \<open>
  The part of the \<^verbatim>\<open>except\<close> clause both versions share: report the error type, count the
  attempt, then either announce a reconnect and wait, or announce the disconnect and
  \<^verbatim>\<open>break\<close>. \<^verbatim>\<open>stop_event.wait(10)\<close> returns True at once when the event is already set.
\<close>

definition report_and_retry :: "string \<Rightarrow> conf \<Rightarrow> conf" where
  "report_and_retry error_msg cf =
     (let name = cname (config (cl cf));
          error_type = error_type_of error_msg;
          cf1 = emit (Status name WarningSign error_type) cf;
          cf2 = cf1\<lparr>cl := (cl cf1)\<lparr>reconnect_attempts := reconnect_attempts (cl cf1) + 1\<rparr>\<rparr>
      in if \<not> user_stopped (cl cf2) \<and> reconnect_attempts (cl cf2) \<le> 3
         then (let cf3 = emit (Status name YellowCircle
                            (''Reconnecting ('' @ str_of_int (reconnect_attempts (cl cf2)) @ ''/3)...'')) cf2
               in if stop_event (cl cf3) then break_outer cf3 else cf3\<lparr>at := Waiting 10\<rparr>)
         else break_outer
                (if \<not> user_stopped (cl cf2)
                 then emit (Status name RedCircle (''Disconnected ('' @ error_type @ '')'')) cf2
                 else cf2))"

text \<open>The \<^verbatim>\<open>except Exception as e\<close> clause of \<^verbatim>\<open>ntrip_checker_pro_v5_0.py\<close>.\<close>

definition handler_v5_0 :: "string \<Rightarrow> conf \<Rightarrow> conf" where
  "handler_v5_0 msg cf =
     (if user_stopped (cl cf) then break_outer cf
      else report_and_retry (py_lower msg) cf)"

text \<open>The \<^verbatim>\<open>except Exception as e\<close> clause of \<^verbatim>\<open>ntrip_checker_pro_v5_2.py\<close>.\<close>

definition is_shutdown_error :: "string \<Rightarrow> client \<Rightarrow> bool" where
  "is_shutdown_error error_msg c =
     (py_in ''winerror 10038'' error_msg \<or> py_in ''bad file descriptor'' error_msg \<or>
      py_in ''not a socket'' error_msg \<or> stop_event c)"

definition handler_v5_2 :: "string \<Rightarrow> conf \<Rightarrow> conf" where
  "handler_v5_2 msg cf =
     (if user_stopped (cl cf) then break_outer cf
      else (let error_msg = py_lower msg
            in if is_shutdown_error error_msg (cl cf) then break_outer cf
               else report_and_retry error_msg cf))"

text \<open>The test of the handshake: \<^verbatim>\<open>b"ICY 200 OK" not in header and b"200 OK" not in header\<close>.\<close>

definition header_rejected :: "bytes \<Rightarrow> bool" where
  "header_rejected header = (\<not> py_in ''ICY 200 OK'' header \<and> \<not> py_in ''200 OK'' header)"

text \<open>
  One observation moves the thread from one blocking point to the next; the code between
  them runs as written. The body of \<^verbatim>\<open>run\<close> is the same in both versions but for the
  \<^verbatim>\<open>except\<close> clause \<open>h\<close>. An observation the thread is not waiting for changes nothing.
\<close>

fun step :: "(string \<Rightarrow> conf \<Rightarrow> conf) \<Rightarrow> conf \<Rightarrow> net_event \<Rightarrow> conf" where
  "step h cf (StopCall user_initiated) =
     (let cf' = cf\<lparr>cl := stop user_initiated (cl cf)\<rparr>
      in case at cf of Waiting t \<Rightarrow> break_outer cf' | _ \<Rightarrow> cf')"
| "step h cf (ConnectFail msg) =
     (if at cf = Connecting then h msg cf else cf)"
| "step h cf (Handshake header) =
     (if at cf = Connecting
      then if header_rejected header then h ''NTRIP server rejected connection'' cf
           else stream_check
                  (emit (Status (cname (config (cl cf))) CheckMark ''Connection OK'')
                     (cf\<lparr>cl := (cl cf)\<lparr>socket := OpenSocket, running := True,
                                         reconnect_attempts := 0\<rparr>\<rparr>))
      else cf)"
| "step h cf RecvTimeout =
     (if at cf = Receiving then stream_check cf else cf)"
| "step h cf (RecvFail msg) =
     (if at cf = Receiving
      then if user_stopped (cl cf) then break_outer cf else h msg cf
      else cf)"
| "step h cf (RecvData data) =
     (if at cf = Receiving
      then if data = []
           then if user_stopped (cl cf) then break_outer cf
                else h ''Connection closed by server'' cf
           else stream_check
                  (emit (Data (cname (config (cl cf))))
                     (cf\<lparr>cl := net_append data (cl cf)\<rparr>))
      else cf)"
| "step h cf WaitTimeout =
     (case at cf of Waiting t \<Rightarrow> next_iteration cf | _ \<Rightarrow> cf)"

text \<open>\<^verbatim>\<open>run\<close> from its first line, on a client and the observations that follow.\<close>

definition start :: "client \<Rightarrow> conf" where
  "start c = enter_loop \<lparr>at = Connecting, cl = c, out = []\<rparr>"

definition run_v5_0 :: "client \<Rightarrow> net_event list \<Rightarrow> conf" where
  "run_v5_0 c evs = foldl (step handler_v5_0) (start c) evs"

definition run_v5_2 :: "client \<Rightarrow> net_event list \<Rightarrow> conf" where
  "run_v5_2 c evs = foldl (step handler_v5_2) (start c) evs"

section \<open>Python values and the decoded frame\<close>

text \<open>
  A frame decoded by the RTCM reader is an object whose attributes are looked up by
  name (\<^verbatim>\<open>getattr\<close>, \<^verbatim>\<open>hasattr\<close>). The attribute values that occur are integers
  (\<^verbatim>\<open>bool\<close> is a subclass of \<^verbatim>\<open>int\<close> and counts as one), strings and \<^verbatim>\<open>None\<close>.
  Strings are taken over 8-bit characters.
\<close>

datatype pyval = PInt int | PStr string | PNone

type_synonym pyobj = "string \<rightharpoonup> pyval"

datatype py_error = TypeError | ValueError

text \<open>
  CPython's limit on the conversion between integers and decimal strings: \<^verbatim>\<open>str\<close> of an
  integer of more digits, and \<^verbatim>\<open>int\<close> of a string of more digits, raise \<^verbatim>\<open>ValueError\<close>.
\<close>

definition max_str_digits :: nat where
  "max_str_digits = 4300"

definition getattr :: "pyobj \<Rightarrow> string \<Rightarrow> pyval \<Rightarrow> pyval" where
  "getattr obj name dflt = (case obj name of Some v \<Rightarrow> v | None \<Rightarrow> dflt)"

definition hasattr :: "pyobj \<Rightarrow> string \<Rightarrow> bool" where
  "hasattr obj name = (obj name \<noteq> None)"

text \<open>\<^verbatim>\<open>str(x)\<close>; on an integer of more than \<^verbatim>\<open>max_str_digits\<close> digits it raises.\<close>

fun py_str :: "pyval \<Rightarrow> py_error + string" where
  "py_str (PInt i) =
     (if max_str_digits < length (dec_digits (nat \<bar>i\<bar>)) then Inl ValueError
      else Inr (str_of_int i))"
| "py_str (PStr s) = Inr s"
| "py_str PNone = Inr ''None''"

text \<open>Truthiness, as \<^verbatim>\<open>if x:\<close> and \<^verbatim>\<open>not x\<close> see it.\<close>

fun truthy :: "pyval \<Rightarrow> bool" where
  "truthy (PInt i) = (i \<noteq> 0)"
| "truthy (PStr s) = (s \<noteq> [])"
| "truthy PNone = False"

text \<open>\<^verbatim>\<open>x > 0\<close>: a string or \<^verbatim>\<open>None\<close> on the left raises \<^verbatim>\<open>TypeError\<close>.\<close>

fun py_gt0 :: "pyval \<Rightarrow> py_error + bool" where
  "py_gt0 (PInt i) = Inr (0 < i)"
| "py_gt0 (PStr s) = Inl TypeError"
| "py_gt0 PNone = Inl TypeError"

text \<open>
  \<^verbatim>\<open>int(s)\<close> for a string: white space is stripped at both ends (the characters
  \<^verbatim>\<open>0x09\<close> to \<^verbatim>\<open>0x0D\<close>, the blank, \<^verbatim>\<open>0x85\<close> and \<^verbatim>\<open>0xA0\<close>), one sign may lead, then
  decimal digits follow, where a single underscore may stand between two digits; more
  than \<^verbatim>\<open>max_str_digits\<close> digits are refused. \<open>None\<close> is the \<^verbatim>\<open>ValueError\<close>.
\<close>

definition is_space :: "char \<Rightarrow> bool" where
  "is_space c =
     (let n = (of_char c :: nat)
      in (9 \<le> n \<and> n \<le> 13) \<or> n = 32 \<or> n = 133 \<or> n = 160)"

definition strip :: "string \<Rightarrow> string" where
  "strip s = rev (dropWhile is_space (rev (dropWhile is_space s)))"

definition is_digit :: "char \<Rightarrow> bool" where
  "is_digit c = (let n = (of_char c :: nat) in 48 \<le> n \<and> n \<le> 57)"

definition digit_val :: "char \<Rightarrow> nat" where
  "digit_val c = of_char c - 48"

fun parse_digits :: "string \<Rightarrow> nat \<Rightarrow> nat option" where
  "parse_digits [] acc = Some acc"
| "parse_digits [c] acc = (if is_digit c then Some (10 * acc + digit_val c) else None)"
| "parse_digits (c # d # cs) acc =
     (if is_digit c then parse_digits (d # cs) (10 * acc + digit_val c)
      else if c = CHR ''_'' \<and> is_digit d then parse_digits (d # cs) acc
      else None)"

definition parse_unsigned :: "string \<Rightarrow> nat option" where
  "parse_unsigned s =
     (case s of
        [] \<Rightarrow> None
      | c # cs \<Rightarrow>
          if is_digit c \<and> length (filter is_digit s) \<le> max_str_digits then parse_digits s 0
          else None)"

definition int_of_str :: "string \<Rightarrow> int option" where
  "int_of_str s =
     (case strip s of
        [] \<Rightarrow> None
      | c # cs \<Rightarrow>
          if c = CHR ''-'' then map_option (\<lambda>n. - int n) (parse_unsigned cs)
          else if c = CHR ''+'' then map_option int (parse_unsigned cs)
          else map_option int (parse_unsigned (c # cs)))"

section \<open>Satellite data extraction: \<^verbatim>\<open>extract_satellite_info\<close>\<close>

type_synonym sat_dict = "string \<rightharpoonup> int set"
type_synonym sig_dict = "string \<rightharpoonup> string set"

text \<open>The dictionary of six empty sets both results start from.\<close>

definition empty_sets :: "string \<rightharpoonup> 'a set" where
  "empty_sets =
     map_of [(''GPS'', {}), (''GLONASS'', {}), (''Galileo'', {}),
             (''BeiDou'', {}), (''QZSS'', {}), (''SBAS'', {})]"

definition signal_map :: "string \<rightharpoonup> (int \<rightharpoonup> string)" where
  "signal_map =
     map_of
      [(''GPS'', map_of [(1, ''L1 C/A''), (2, ''L1 P(Y)''), (3, ''L1 M''), (4, ''L2 P(Y)''),
                         (5, ''L2 C''), (6, ''L2 M''), (7, ''L5 I''), (8, ''L5 Q'')]),
       (''GLONASS'', map_of [(1, ''G1 C/A''), (2, ''G1 P''), (3, ''G2 C/A''), (4, ''G2 P''),
                             (5, ''G3 I''), (6, ''G3 Q'')]),
       (''Galileo'', map_of [(1, ''E1 C''), (2, ''E1 A''), (3, ''E1 B''), (4, ''E5a I''),
                             (5, ''E5a Q''), (6, ''E5b I''), (7, ''E5b Q''), (8, ''E6 C'')]),
       (''BeiDou'', map_of [(1, ''B1 I''), (2, ''B1 Q''), (3, ''B2 I''), (4, ''B2 Q''),
                            (5, ''B3 I''), (6, ''B3 Q'')]),
       (''QZSS'', map_of [(1, ''L1 C/A''), (2, ''L1 S''), (4, ''L2 C''), (5, ''L2 L''),
                          (7, ''L5 I''), (8, ''L5 Q''), (9, ''L6 I''), (10, ''L6 Q'')]),
       (''SBAS'', map_of [(1, ''L1 C/A''), (7, ''L5 I''), (8, ''L5 Q'')])]"

definition constellation_map :: "int \<rightharpoonup> string" where
  "constellation_map =
     map_of [(0, ''GPS''), (1, ''GLONASS''), (2, ''Galileo''),
             (3, ''SBAS''), (4, ''QZSS''), (5, ''BeiDou'')]"

text \<open>
  The field name \<^verbatim>\<open>f'PRN_{i:02d}'\<close>: the decimal digits, padded with zeros to width two.
  (The limit on digits is not applied here: a loop index of that size is out of reach.)
\<close>

definition prn_field :: "int \<Rightarrow> string" where
  "prn_field i =
     (let d = str_of_int i in ''PRN_'' @ replicate (2 - length d) CHR ''0'' @ d)"

text \<open>\<^verbatim>\<open>mask & (1 << k)\<close> as a condition.\<close>

definition mask_bit :: "int \<Rightarrow> nat \<Rightarrow> bool" where
  "mask_bit m k = (m AND push_bit k 1 \<noteq> 0)"

text \<open>The body of the loop over \<^verbatim>\<open>range(1, nsat + 1)\<close>.\<close>

definition add_prn :: "pyobj \<Rightarrow> int \<Rightarrow> int set \<Rightarrow> int set" where
  "add_prn parsed i sats =
     (if hasattr parsed (prn_field i)
      then (case getattr parsed (prn_field i) PNone of
              PInt prn \<Rightarrow> if prn > 0 then insert prn sats else sats
            | _ \<Rightarrow> sats)
      else sats)"

text \<open>The body of the loop over \<^verbatim>\<open>range(1, 33)\<close>.\<close>

definition add_signal :: "(int \<rightharpoonup> string) \<Rightarrow> int \<Rightarrow> int \<Rightarrow> string set \<Rightarrow> string set" where
  "add_signal names sig_mask sig_id sigs =
     (if mask_bit sig_mask (nat (sig_id - 1))
      then insert (case names sig_id of Some n \<Rightarrow> n | None \<Rightarrow> ''Signal '' @ str_of_int sig_id) sigs
      else sigs)"

text \<open>The body of the loop over \<^verbatim>\<open>range(1, 65)\<close>.\<close>

definition add_mask_prn :: "int \<Rightarrow> int \<Rightarrow> int set \<Rightarrow> int set" where
  "add_mask_prn sat_mask prn sats =
     (if mask_bit sat_mask (nat (prn - 1)) then insert prn sats else sats)"

text \<open>
  The block under \<^verbatim>\<open>if constellation:\<close>. The two sets are
  \<^verbatim>\<open>satellites[constellation]\<close> and \<^verbatim>\<open>signals[constellation]\<close>, both empty on entry;
  \<^verbatim>\<open>TypeError\<close> is not among the exceptions the function catches.
\<close>

definition msm_sets :: "pyobj \<Rightarrow> string \<Rightarrow> py_error + (int set \<times> string set)" where
  "msm_sets parsed constellation =
     (let nsat = getattr parsed ''NSat'' (PInt 0)
      in case py_gt0 nsat of
           Inl e \<Rightarrow> Inl e
         | Inr sat_positive \<Rightarrow>
            (let sats1 = (if sat_positive
                          then (case nsat of PInt n \<Rightarrow> fold (add_prn parsed) [1..n] {} | _ \<Rightarrow> {})
                          else {});
                 nsig = getattr parsed ''NSig'' (PInt 0)
             in case py_gt0 nsig of
                  Inl e \<Rightarrow> Inl e
                | Inr sig_positive \<Rightarrow>
                   (let sigs =
                          (if sig_positive
                           then (case signal_map constellation of
                                   None \<Rightarrow> {}
                                 | Some names \<Rightarrow>
                                    (case getattr parsed ''DF395'' PNone of
                                       PInt sig_mask \<Rightarrow>
                                         if sig_mask \<noteq> 0
                                         then fold (add_signal names sig_mask) [1..32] {}
                                         else {}
                                     | _ \<Rightarrow> {}))
                           else {});
                        sats2 =
                          (if sats1 = {}
                           then (case getattr parsed ''DF394'' PNone of
                                   PInt sat_mask \<Rightarrow>
                                     if sat_mask > 0
                                     then fold (add_mask_prn sat_mask) [1..64] sats1
                                     else sats1
                                 | _ \<Rightarrow> sats1)
                           else sats1)
                    in Inr (sats2, sigs))))"

text \<open>
  The function. \<^verbatim>\<open>str(msg_type)\<close> stands before the \<^verbatim>\<open>try\<close>, so its \<^verbatim>\<open>ValueError\<close>
  leaves the function; the \<^verbatim>\<open>ValueError\<close> of \<^verbatim>\<open>int(msg_type_str)\<close> is caught, and the
  dictionaries are returned as they are then, all sets empty.
\<close>

definition extract_satellite_info :: "pyobj \<Rightarrow> py_error + (sat_dict \<times> sig_dict)" where
  "extract_satellite_info parsed =
     (let satellites = empty_sets;
          signals = empty_sets;
          msg_type = getattr parsed ''identity'' (PStr [])
      in case py_str msg_type of
           Inl e \<Rightarrow> Inl e
         | Inr msg_type_str \<Rightarrow>
            (case int_of_str msg_type_str of
               None \<Rightarrow> Inr (satellites, signals)
             | Some msg_num \<Rightarrow>
                if 1071 \<le> msg_num \<and> msg_num \<le> 1127
                then (let constellation_id = (msg_num - 1071) div 10
                      in case constellation_map constellation_id of
                           None \<Rightarrow> Inr (satellites, signals)
                         | Some constellation \<Rightarrow>
                            if constellation = [] then Inr (satellites, signals)
                            else (case msm_sets parsed constellation of
                                    Inl e \<Rightarrow> Inl e
                                  | Inr (sats, sigs) \<Rightarrow>
                                     Inr (satellites(constellation \<mapsto> sats),
                                          signals(constellation \<mapsto> sigs))))
                else Inr (satellites, signals)))"

section \<open>The application: \<^verbatim>\<open>NTRIPCheckerPro\<close>\<close>

text \<open>
  The fields of the main window that the data handlers read and write. A time stamp is
  the string \<^verbatim>\<open>datetime.now()\<close> gives. The key of a message count is the frame's
  \<^verbatim>\<open>identity\<close> as it is, so the integer 1077 and the string "1077" are two keys.
\<close>

record msg_stat =
  msg_count :: int
  last_seen :: string

record app =
  casters :: "caster list"
  clients :: "string \<rightharpoonup> client"
  start_times :: "string \<rightharpoonup> string"
  last_bytes :: "string \<rightharpoonup> int"
  rtcm_stats :: "string \<rightharpoonup> (pyval \<rightharpoonup> msg_stat)"
  satellite_stats :: "string \<rightharpoonup> sat_dict"
  signal_stats :: "string \<rightharpoonup> sig_dict"

text \<open>
  What \<^verbatim>\<open>RTCMReader(stream)\<close> does on a snapshot of the buffer is the library's: the
  frames it yields, and then either the end of the iteration, with the position
  \<^verbatim>\<open>stream.tell()\<close> reached, or an exception.
\<close>

datatype reader_end = EndOfStream nat | ReaderError

record reading =
  frames :: "pyobj list"
  ending :: reader_end

text \<open>The update of \<^verbatim>\<open>rtcm_stats\<close> for one frame.\<close>

definition count_message :: "string \<Rightarrow> string \<Rightarrow> pyval \<Rightarrow> app \<Rightarrow> app" where
  "count_message caster_name now msg_type a =
     (let caster_msgs = (case rtcm_stats a caster_name of None \<Rightarrow> Map.empty | Some m \<Rightarrow> m);
          st = (case caster_msgs msg_type of
                  None \<Rightarrow> \<lparr>msg_count = 0, last_seen = now\<rparr>
                | Some st \<Rightarrow> st)
      in a\<lparr>rtcm_stats := (rtcm_stats a)(caster_name \<mapsto>
              caster_msgs(msg_type \<mapsto> \<lparr>msg_count = msg_count st + 1, last_seen = now\<rparr>))\<rparr>)"

text \<open>
  The union of the sets of one frame into the running sets, constellation by
  constellation (both dictionaries have the same six keys).
\<close>

definition merge_sets :: "(string \<rightharpoonup> 'a set) \<Rightarrow> (string \<rightharpoonup> 'a set) \<Rightarrow> (string \<rightharpoonup> 'a set)" where
  "merge_sets totals info =
     (\<lambda>constellation.
        case totals constellation of
          None \<Rightarrow> None
        | Some s \<Rightarrow> (case info constellation of None \<Rightarrow> Some s | Some new \<Rightarrow> Some (s \<union> new)))"

definition merge_satellites :: "string \<Rightarrow> sat_dict \<Rightarrow> sig_dict \<Rightarrow> app \<Rightarrow> app" where
  "merge_satellites caster_name sat_info sig_info a =
     (let sat_total = (case satellite_stats a caster_name of None \<Rightarrow> empty_sets | Some d \<Rightarrow> d);
          sig_total = (case signal_stats a caster_name of None \<Rightarrow> empty_sets | Some d \<Rightarrow> d)
      in a\<lparr>satellite_stats := (satellite_stats a)(caster_name \<mapsto> merge_sets sat_total sat_info),
           signal_stats := (signal_stats a)(caster_name \<mapsto> merge_sets sig_total sig_info)\<rparr>)"

text \<open>
  The loop over the frames of one pass. The clock is read once for each frame; \<open>k\<close> is the
  frame's position. The second component tells whether the loop was left by an exception
  (of \<^verbatim>\<open>extract_satellite_info\<close>); what was written before it stays written.
\<close>

fun process_frames :: "string \<Rightarrow> (nat \<Rightarrow> string) \<Rightarrow> nat \<Rightarrow> pyobj list \<Rightarrow> app \<Rightarrow> app \<times> bool" where
  "process_frames caster_name clock k [] a = (a, False)"
| "process_frames caster_name clock k (parsed # rest) a =
     (let msg_type = getattr parsed ''identity'' PNone
      in if \<not> truthy msg_type then process_frames caster_name clock (Suc k) rest a
         else (let a1 = count_message caster_name (clock k) msg_type a
               in case extract_satellite_info parsed of
                    Inl e \<Rightarrow> (a1, True)
                  | Inr (sat_info, sig_info) \<Rightarrow>
                      process_frames caster_name clock (Suc k) rest
                        (merge_satellites caster_name sat_info sig_info a1)))"

text \<open>
  \<^verbatim>\<open>on_data\<close>. The handler takes the lock twice: for the snapshot and for the trim.
  \<open>between\<close> are the chunks the network thread appends (each in its own locked section)
  after the snapshot and before the trim, or before the handler returns without one.
  An exception anywhere in the pass is caught by the outer \<^verbatim>\<open>except\<close>, which only logs.
\<close>

definition on_data :: "(bytes \<Rightarrow> reading) \<Rightarrow> (nat \<Rightarrow> string) \<Rightarrow> bytes list \<Rightarrow> string \<Rightarrow> app \<Rightarrow> app" where
  "on_data rtcm_reader clock between caster_name a =
     (case clients a caster_name of
        None \<Rightarrow> a
      | Some client \<Rightarrow>
         (let buf = buffer client;
              later = fold net_append between client
          in if buf = [] then a\<lparr>clients := (clients a)(caster_name \<mapsto> later)\<rparr>
             else (let r = rtcm_reader buf;
                       (a1, raised) = process_frames caster_name clock 0 (frames r) a
                   in case ending r of
                        EndOfStream consumed \<Rightarrow>
                          if \<not> raised \<and> consumed \<noteq> 0
                          then a1\<lparr>clients := (clients a1)(caster_name \<mapsto>
                                    later\<lparr>buffer := drop consumed (buffer later)\<rparr>)\<rparr>
                          else a1\<lparr>clients := (clients a1)(caster_name \<mapsto> later)\<rparr>
                      | ReaderError \<Rightarrow> a1\<lparr>clients := (clients a1)(caster_name \<mapsto> later)\<rparr>)))"

text \<open>\<^verbatim>\<open>start_connection\<close>; \<open>now\<close> is the clock.\<close>

definition start_connection :: "string \<Rightarrow> caster \<Rightarrow> app \<Rightarrow> app" where
  "start_connection now c a =
     (let name = cname c
      in if (case clients a name of Some client \<Rightarrow> running client | None \<Rightarrow> False) then a
         else a\<lparr>clients := (clients a)(name \<mapsto> new_client c),
                start_times := (start_times a)(name \<mapsto> now),
                last_bytes := (last_bytes a)(name \<mapsto> 0)\<rparr>)"

text \<open>
  \<^verbatim>\<open>remove_caster_by_name\<close>; \<open>confirmed\<close> is the answer to the confirmation box. The
  client is stopped and its entry is popped from \<^verbatim>\<open>clients\<close>.
\<close>

definition remove_caster_by_name :: "bool \<Rightarrow> string \<Rightarrow> app \<Rightarrow> app" where
  "remove_caster_by_name confirmed name a =
     (if \<not> confirmed then a
      else a\<lparr>casters := filter (\<lambda>c. cname c \<noteq> name) (casters a),
             clients := (clients a)(name := None)\<rparr>)"

text \<open>The loop that replaces the first caster of the old name in the list.\<close>

fun replace_first :: "string \<Rightarrow> caster \<Rightarrow> caster list \<Rightarrow> caster list" where
  "replace_first old_name newdata [] = []"
| "replace_first old_name newdata (c # cs) =
     (if cname c = old_name then newdata # cs else c # replace_first old_name newdata cs)"

text \<open>
  \<^verbatim>\<open>show_edit_dialog\<close>; \<open>dialog\<close> is what the dialog returns (\<open>None\<close> when it is
  cancelled), \<open>now\<close> the clock.
\<close>

definition show_edit_dialog :: "caster option \<Rightarrow> string \<Rightarrow> string \<Rightarrow> app \<Rightarrow> app" where
  "show_edit_dialog dialog now old_name a =
     (case find (\<lambda>c. cname c = old_name) (casters a) of
        None \<Rightarrow> a
      | Some c \<Rightarrow>
         (case dialog of
            None \<Rightarrow> a
          | Some newdata \<Rightarrow>
             if cname newdata = [] \<or> host newdata = [] \<or> mount newdata = [] then a
             else (let a1 = a\<lparr>casters := replace_first old_name newdata (casters a)\<rparr>
                   in case clients a1 old_name of
                        None \<Rightarrow> a1
                      | Some client \<Rightarrow>
                          start_connection now newdata
                            (a1\<lparr>clients := (clients a1)(old_name := None),
                                start_times := (start_times a1)(old_name := None),
                                last_bytes := (last_bytes a1)(old_name := None),
                                rtcm_stats := (rtcm_stats a1)(old_name := None)\<rparr>))))"

section \<open>Vocabulary of the properties\<close>

text \<open>
  A connection attempt that fails with the exception text \<open>msg\<close>: the connection section
  raises, or the header is rejected.
\<close>

definition failed_attempt :: "net_event \<Rightarrow> string \<Rightarrow> bool" where
  "failed_attempt e msg =
     (case e of
        ConnectFail m \<Rightarrow> msg = m
      | Handshake header \<Rightarrow> header_rejected header \<and> msg = ''NTRIP server rejected connection''
      | _ \<Rightarrow> False)"

text \<open>
  The bounds of the retry counter: never negative; at most 3 while a connection attempt
  is under way; 0 while streaming; from 1 to 3 during a wait, which is the one of 10
  seconds; at most 4 when the run is over.
\<close>

definition retry_bounded :: "conf \<Rightarrow> bool" where
  "retry_bounded cf =
     (0 \<le> reconnect_attempts (cl cf) \<and>
      (case at cf of
         Connecting \<Rightarrow> reconnect_attempts (cl cf) \<le> 3
       | Receiving \<Rightarrow> reconnect_attempts (cl cf) = 0
       | Waiting t \<Rightarrow> t = 10 \<and> 1 \<le> reconnect_attempts (cl cf) \<and> reconnect_attempts (cl cf) \<le> 3
       | Finished \<Rightarrow> reconnect_attempts (cl cf) \<le> 4))"

text \<open>The three texts by which version 5.2 recognises a socket closed during shutdown.\<close>

definition has_shutdown_marker :: "string \<Rightarrow> bool" where
  "has_shutdown_marker msg =
     (py_in ''winerror 10038'' (py_lower msg) \<or> py_in ''bad file descriptor'' (py_lower msg) \<or>
      py_in ''not a socket'' (py_lower msg))"

text \<open>A status that reports a failure: any status but "Connection OK".\<close>

definition error_status :: "signal \<Rightarrow> bool" where
  "error_status sg = (case sg of Status name i txt \<Rightarrow> i \<noteq> CheckMark | _ \<Rightarrow> False)"

text \<open>The byte counter agrees with the buffer.\<close>

definition counted :: "conf \<Rightarrow> bool" where
  "counted cf = (total_bytes (cl cf) = int (length (buffer (cl cf))))"

text \<open>The attribute is absent or holds an integer.\<close>

definition int_attr :: "pyobj \<Rightarrow> string \<Rightarrow> bool" where
  "int_attr parsed name =
     (case parsed name of None \<Rightarrow> True | Some (PInt n) \<Rightarrow> True | Some other \<Rightarrow> False)"

text \<open>
  The frame's identity reads as an integer from 1071 to 1127: \<^verbatim>\<open>str(identity)\<close> and
  \<^verbatim>\<open>int\<close> of it succeed and the number lies in the range, which is the test the extractor
  makes.
\<close>

definition msm_identity :: "pyobj \<Rightarrow> bool" where
  "msm_identity parsed =
     (case py_str (getattr parsed ''identity'' (PStr [])) of
        Inl e \<Rightarrow> False
      | Inr msg_type_str \<Rightarrow>
         (case int_of_str msg_type_str of
            None \<Rightarrow> False
          | Some msg_num \<Rightarrow> 1071 \<le> msg_num \<and> msg_num \<le> 1127))"

text \<open>
  The objects on which the extractor does not raise: \<^verbatim>\<open>str\<close> of the identity succeeds,
  and when the identity reads as an integer from 1071 to 1127, \<^verbatim>\<open>NSat\<close> and \<^verbatim>\<open>NSig\<close> are
  absent or integers.
\<close>

definition extractable :: "pyobj \<Rightarrow> bool" where
  "extractable parsed =
     (\<not> isl (py_str (getattr parsed ''identity'' (PStr []))) \<and>
      (msm_identity parsed \<longrightarrow> int_attr parsed ''NSat'' \<and> int_attr parsed ''NSig''))"

text \<open>The six keys of both dictionaries.\<close>

definition constellations :: "string set" where
  "constellations = {''GPS'', ''GLONASS'', ''Galileo'', ''BeiDou'', ''QZSS'', ''SBAS''}"

text \<open>The count stored for a caster and a message identity, and the sets stored for a caster and a constellation.\<close>

definition count_of :: "app \<Rightarrow> string \<Rightarrow> pyval \<Rightarrow> int option" where
  "count_of a caster_name msg_type =
     (case rtcm_stats a caster_name of
        None \<Rightarrow> None
      | Some caster_msgs \<Rightarrow> map_option msg_count (caster_msgs msg_type))"

definition sats_of :: "app \<Rightarrow> string \<Rightarrow> string \<Rightarrow> int set option" where
  "sats_of a caster_name constellation =
     (case satellite_stats a caster_name of None \<Rightarrow> None | Some d \<Rightarrow> d constellation)"

definition sigs_of :: "app \<Rightarrow> string \<Rightarrow> string \<Rightarrow> string set option" where
  "sigs_of a caster_name constellation =
     (case signal_stats a caster_name of None \<Rightarrow> None | Some d \<Rightarrow> d constellation)"

text \<open>The position the reader reports lies within the snapshot it was given.\<close>

definition reader_within :: "(bytes \<Rightarrow> reading) \<Rightarrow> bytes \<Rightarrow> bool" where
  "reader_within rtcm_reader buf =
     (case ending (rtcm_reader buf) of EndOfStream consumed \<Rightarrow> consumed \<le> length buf | ReaderError \<Rightarrow> True)"

text \<open>Every stored satellite and signal set is still stored, and has lost no member.\<close>

definition sets_grow :: "app \<Rightarrow> app \<Rightarrow> bool" where
  "sets_grow a a' =
     ((\<forall>nm k S. sats_of a nm k = Some S \<longrightarrow> (\<exists>S'. sats_of a' nm k = Some S' \<and> S \<subseteq> S')) \<and>
      (\<forall>nm k S. sigs_of a nm k = Some S \<longrightarrow> (\<exists>S'. sigs_of a' nm k = Some S' \<and> S \<subseteq> S')))"

text \<open>Every stored message count is still stored, and has not gone down.\<close>

definition counts_grow :: "app \<Rightarrow> app \<Rightarrow> bool" where
  "counts_grow a a' =
     (\<forall>nm t n. count_of a nm t = Some n \<longrightarrow> (\<exists>n'. count_of a' nm t = Some n' \<and> n \<le> n'))"

text \<open>The stored count of a caster and an identity, 0 when none is stored.\<close>

definition stored_count :: "app \<Rightarrow> string \<Rightarrow> pyval \<Rightarrow> int" where
  "stored_count a caster_name msg_type =
     (case count_of a caster_name msg_type of None \<Rightarrow> 0 | Some n \<Rightarrow> n)"

text \<open>How many of the frames carry the identity and are counted (a frame without identity is skipped).\<close>

definition frames_of :: "pyval \<Rightarrow> pyobj list \<Rightarrow> nat" where
  "frames_of msg_type fs =
     length (filter (\<lambda>parsed. truthy msg_type \<and> getattr parsed ''identity'' PNone = msg_type) fs)"

text \<open>
  The chunks that the reads of a run return, in order: a read returns a chunk when the
  thread is in \<^verbatim>\<open>recv(4096)\<close> and the data is not empty.
\<close>

fun reads_of :: "(string \<Rightarrow> conf \<Rightarrow> conf) \<Rightarrow> conf \<Rightarrow> net_event list \<Rightarrow> bytes list" where
  "reads_of h cf [] = []"
| "reads_of h cf (e # evs) =
     (case e of
        RecvData d \<Rightarrow> if at cf = Receiving \<and> d \<noteq> [] then [d] else []
      | _ \<Rightarrow> []) @ reads_of h (step h cf e) evs"

text \<open>The data of all reads in a list of observations; a read with data, or a timeout.\<close>

definition payloads :: "net_event list \<Rightarrow> bytes list" where
  "payloads evs = concat (map (\<lambda>e. case e of RecvData d \<Rightarrow> [d] | _ \<Rightarrow> []) evs)"

definition read_or_timeout :: "net_event \<Rightarrow> bool" where
  "read_or_timeout e = (case e of RecvData d \<Rightarrow> d \<noteq> [] | RecvTimeout \<Rightarrow> True | _ \<Rightarrow> False)"

text \<open>
  The exception text that reaches the \<^verbatim>\<open>except\<close> clause of \<^verbatim>\<open>run\<close> on an observation, if
  one does: a failure of the connection section, a rejected header, and, unless the user
  stopped the client, a failed read or the end of the stream.
\<close>

definition handled_text :: "conf \<Rightarrow> net_event \<Rightarrow> string option" where
  "handled_text cf e =
     (case e of
        ConnectFail msg \<Rightarrow> if at cf = Connecting then Some msg else None
      | Handshake header \<Rightarrow>
          if at cf = Connecting \<and> header_rejected header
          then Some ''NTRIP server rejected connection'' else None
      | RecvFail msg \<Rightarrow>
          if at cf = Receiving \<and> \<not> user_stopped (cl cf) then Some msg else None
      | RecvData data \<Rightarrow>
          if at cf = Receiving \<and> data = [] \<and> \<not> user_stopped (cl cf)
          then Some ''Connection closed by server'' else None
      | _ \<Rightarrow> None)"

text \<open>
  The observation sends version 5.2 into its shutdown branch: an exception reaches the
  \<^verbatim>\<open>except\<close> clause while \<^verbatim>\<open>user_stopped\<close> is false, and its text carries a shutdown marker
  or the stop event is set. A run that never does so.
\<close>

definition shutdown_branch :: "conf \<Rightarrow> net_event \<Rightarrow> bool" where
  "shutdown_branch cf e =
     (case handled_text cf e of
        None \<Rightarrow> False
      | Some msg \<Rightarrow> \<not> user_stopped (cl cf) \<and> is_shutdown_error (py_lower msg) (cl cf))"

fun never_shutdown_branch :: "conf \<Rightarrow> net_event list \<Rightarrow> bool" where
  "never_shutdown_branch cf [] = True"
| "never_shutdown_branch cf (e # evs) =
     (\<not> shutdown_branch cf e \<and> never_shutdown_branch (step handler_v5_2 cf e) evs)"

section \<open>Concrete inputs\<close>

text \<open>A caster, and the same caster under another name.\<close>

definition caster_A :: caster where
  "caster_A = \<lparr>cname = ''A'', host = ''caster.example'', port = 2101, mount = ''MOUNT'',
               user = ''u'', password = ''p''\<rparr>"

definition caster_B :: caster where
  "caster_B = caster_A\<lparr>cname := ''B''\<rparr>"

text \<open>
  Frames as the attributes the extractor reads: an MSM4 frame of GPS with three satellite
  fields, one of GLONASS with a satellite mask and no satellite field, a station frame
  whose \<^verbatim>\<open>NSat\<close> is \<^verbatim>\<open>None\<close>, an object with an MSM identity whose \<^verbatim>\<open>NSat\<close> is \<^verbatim>\<open>None\<close>, and
  an object whose identity is an integer of 4301 digits.
\<close>

definition frame_1074 :: pyobj where
  "frame_1074 = [''identity'' \<mapsto> PStr ''1074'', ''NSat'' \<mapsto> PInt 3, ''PRN_01'' \<mapsto> PInt 4,
                 ''PRN_02'' \<mapsto> PInt 9, ''PRN_03'' \<mapsto> PInt 17]"

definition frame_1084 :: pyobj where
  "frame_1084 = [''identity'' \<mapsto> PStr ''1084'', ''NSat'' \<mapsto> PInt 2, ''DF394'' \<mapsto> PInt 5]"

definition frame_1005 :: pyobj where
  "frame_1005 = [''identity'' \<mapsto> PStr ''1005'', ''NSat'' \<mapsto> PNone]"

definition frame_untyped :: pyobj where
  "frame_untyped = [''identity'' \<mapsto> PStr ''1077'', ''NSat'' \<mapsto> PNone]"

definition frame_huge :: pyobj where
  "frame_huge = [''identity'' \<mapsto> PInt (10 ^ 4300)]"

text \<open>
  A clock that stands still; a reader that yields one GPS frame and consumes the whole
  snapshot, and one that yields the same frame and then raises; an application with the
  caster A whose client has received eleven bytes and is not running; and that
  application after one decode pass on A.
\<close>

definition clock_0 :: "nat \<Rightarrow> string" where
  "clock_0 k = ''2024-01-01 00:00:00''"

definition reader_whole :: "bytes \<Rightarrow> reading" where
  "reader_whole buf = \<lparr>frames = [frame_1074], ending = EndOfStream (length buf)\<rparr>"

definition reader_failing :: "bytes \<Rightarrow> reading" where
  "reader_failing buf = \<lparr>frames = [frame_1074], ending = ReaderError\<rparr>"

definition app_A :: app where
  "app_A =
     \<lparr>casters = [caster_A],
      clients = [''A'' \<mapsto> net_append ''frame-bytes'' (new_client caster_A)],
      start_times = [''A'' \<mapsto> ''2024-01-01 00:00:00''],
      last_bytes = [''A'' \<mapsto> 0],
      rtcm_stats = Map.empty,
      satellite_stats = Map.empty,
      signal_stats = Map.empty\<rparr>"

definition app_seen :: app where
  "app_seen = on_data reader_whole clock_0 [] ''A'' app_A"

section \<open>Properties of the connection\<close>

lemma py_in_sublist: "py_in sub xs = sublist sub xs"
  by (induction xs) (simp_all add: sublist_Cons_right)

lemmas conn_defs = start_def new_client_def enter_loop_def loop_cond_def
  leave_run_def break_outer_def next_iteration_def stream_check_def finally_clause_def stop_def emit_def
  handler_v5_0_def handler_v5_2_def report_and_retry_def net_append_def

lemma str_small: "str_of_int 1 = ''1''" "str_of_int 2 = ''2''" "str_of_int 3 = ''3''"
  by code_simp+

lemma fixed_texts:
  "py_lower ''NTRIP server rejected connection'' = ''ntrip server rejected connection''"
  "py_lower ''Connection closed by server'' = ''connection closed by server''"
  by code_simp+

lemma fixed_markers:
  "\<not> has_shutdown_marker ''NTRIP server rejected connection''"
  "\<not> has_shutdown_marker ''Connection closed by server''"
  by (simp_all add: has_shutdown_marker_def fixed_texts)

lemma fixed_types:
  "error_type_of ''ntrip server rejected connection'' = ''Authentication failed''"
  "error_type_of ''connection closed by server'' = ''Network error''"
  by (simp_all add: error_type_of_def)

lemma shutdown_error_iff:
  "is_shutdown_error (py_lower msg) c = (has_shutdown_marker msg \<or> stop_event c)"
  by (simp add: is_shutdown_error_def has_shutdown_marker_def)

lemma step_failed_attempt:
  "failed_attempt e msg \<Longrightarrow> at cf = Connecting \<Longrightarrow> step h cf e = h msg cf"
  by (cases e) (simp_all add: failed_attempt_def)

text \<open>
  Claim C5. The handshake takes the server's answer exactly when the header read first
  holds \<^verbatim>\<open>ICY 200 OK\<close> or \<^verbatim>\<open>200 OK\<close> somewhere; the header \<^verbatim>\<open>ICY 200 OK\<close> is taken; the
  header \<^verbatim>\<open>401 Unauthorized\<close> holds neither marker, is rejected, and the failure it raises
  is reported as "Authentication failed" (in both versions).
\<close>

theorem handshake_acceptance:
  "header_rejected header = (\<not> (sublist ''ICY 200 OK'' header \<or> sublist ''200 OK'' header))
   \<and> step h (cf\<lparr>at := Connecting\<rparr>) (Handshake header) =
       (if sublist ''ICY 200 OK'' header \<or> sublist ''200 OK'' header
        then stream_check
               (emit (Status (cname (config (cl cf))) CheckMark ''Connection OK'')
                  (cf\<lparr>at := Connecting,
                      cl := (cl cf)\<lparr>socket := OpenSocket, running := True, reconnect_attempts := 0\<rparr>\<rparr>))
        else h ''NTRIP server rejected connection'' (cf\<lparr>at := Connecting\<rparr>))
   \<and> \<not> header_rejected ''ICY 200 OK''
   \<and> header_rejected ''401 Unauthorized''
   \<and> error_type_of (py_lower ''NTRIP server rejected connection'') = ''Authentication failed''
   \<and> run_v5_2 (new_client c) [Handshake ''ICY 200 OK''] =
         \<lparr>at = Receiving, cl = (new_client c)\<lparr>running := True, socket := OpenSocket\<rparr>,
          out = [Status (cname c) CheckMark ''Connection OK'']\<rparr>
   \<and> out (run_v5_2 (new_client c) [Handshake ''401 Unauthorized'']) =
         [Status (cname c) WarningSign ''Authentication failed'',
          Status (cname c) YellowCircle ''Reconnecting (1/3)...'']
   \<and> out (run_v5_0 (new_client c) [Handshake ''401 Unauthorized'']) =
         [Status (cname c) WarningSign ''Authentication failed'',
          Status (cname c) YellowCircle ''Reconnecting (1/3)...'']"
proof -
  have a: "header_rejected header = (\<not> (sublist ''ICY 200 OK'' header \<or> sublist ''200 OK'' header))"
    by (simp add: header_rejected_def py_in_sublist)
  have b: "\<not> header_rejected ''ICY 200 OK''" "header_rejected ''401 Unauthorized''"
    by (simp_all add: header_rejected_def)
  show ?thesis
    using a b
    by (simp add: run_v5_2_def run_v5_0_def conn_defs fixed_texts fixed_types is_shutdown_error_def
          str_small Let_def)
qed

lemma step_retry_bounded_v5_2: "retry_bounded cf \<Longrightarrow> retry_bounded (step handler_v5_2 cf e)"
  by (cases e; cases "at cf")
     (auto simp: retry_bounded_def conn_defs is_shutdown_error_def Let_def)

lemma step_retry_bounded_v5_0: "retry_bounded cf \<Longrightarrow> retry_bounded (step handler_v5_0 cf e)"
  by (cases e; cases "at cf")
     (auto simp: retry_bounded_def conn_defs Let_def)

lemma foldl_retry_bounded_v5_2: "retry_bounded cf \<Longrightarrow> retry_bounded (foldl (step handler_v5_2) cf evs)"
  by (induction evs arbitrary: cf) (simp_all add: step_retry_bounded_v5_2)

lemma foldl_retry_bounded_v5_0: "retry_bounded cf \<Longrightarrow> retry_bounded (foldl (step handler_v5_0) cf evs)"
  by (induction evs arbitrary: cf) (simp_all add: step_retry_bounded_v5_0)

lemma start_retry_bounded: "retry_bounded (start (new_client c))"
  by (simp add: retry_bounded_def conn_defs)

lemma run_retry_bounded:
  "retry_bounded (run_v5_2 (new_client c) evs)" "retry_bounded (run_v5_0 (new_client c) evs)"
  by (simp_all add: run_v5_2_def run_v5_0_def foldl_retry_bounded_v5_2 foldl_retry_bounded_v5_0
        start_retry_bounded)

lemma wait_interruptible: "at (step h (cf\<lparr>at := Waiting t\<rparr>) (StopCall b)) = Finished"
  by (simp add: conn_defs)

text \<open>
  Claim C1, as amended. When the first attempt and the three retries fail one after the
  other (four failed attempts, none with a text that v5.2 takes for a shutdown, and no
  stop), the run ends and has emitted, after each failure's own warning, exactly the three
  statuses "Reconnecting (k/3)..." for k = 1, 2, 3, then one "Disconnected (...)" status
  and the disconnect signal. Before each of the three retries the thread waits in
  \<^verbatim>\<open>stop_event.wait(10)\<close>, and there is no fourth retry. In every run of a new client
  the retry counter keeps its bounds, every wait is the one of 10 seconds, and a call of
  \<^verbatim>\<open>stop\<close> ends a wait and the run at once.
\<close>

theorem four_failures_then_disconnected:
  assumes f: "failed_attempt e1 m1" "failed_attempt e2 m2" "failed_attempt e3 m3" "failed_attempt e4 m4"
    and q: "\<not> has_shutdown_marker m1" "\<not> has_shutdown_marker m2" "\<not> has_shutdown_marker m3"
           "\<not> has_shutdown_marker m4"
  shows "run_v5_2 (new_client c) [e1, WaitTimeout, e2, WaitTimeout, e3, WaitTimeout, e4] =
           \<lparr>at = Finished, cl = (new_client c)\<lparr>reconnect_attempts := 4\<rparr>,
            out = [Status (cname c) WarningSign (error_type_of (py_lower m1)),
                   Status (cname c) YellowCircle ''Reconnecting (1/3)...'',
                   Status (cname c) WarningSign (error_type_of (py_lower m2)),
                   Status (cname c) YellowCircle ''Reconnecting (2/3)...'',
                   Status (cname c) WarningSign (error_type_of (py_lower m3)),
                   Status (cname c) YellowCircle ''Reconnecting (3/3)...'',
                   Status (cname c) WarningSign (error_type_of (py_lower m4)),
                   Status (cname c) RedCircle (''Disconnected ('' @ error_type_of (py_lower m4) @ '')''),
                   Disconnect (cname c)]\<rparr>
       \<and> run_v5_0 (new_client c) [e1, WaitTimeout, e2, WaitTimeout, e3, WaitTimeout, e4] =
           run_v5_2 (new_client c) [e1, WaitTimeout, e2, WaitTimeout, e3, WaitTimeout, e4]
       \<and> map (\<lambda>evs. at (run_v5_2 (new_client c) evs))
            [[], [e1], [e1, WaitTimeout], [e1, WaitTimeout, e2], [e1, WaitTimeout, e2, WaitTimeout],
             [e1, WaitTimeout, e2, WaitTimeout, e3], [e1, WaitTimeout, e2, WaitTimeout, e3, WaitTimeout]] =
           [Connecting, Waiting 10, Connecting, Waiting 10, Connecting, Waiting 10, Connecting]
       \<and> map (\<lambda>evs. at (run_v5_0 (new_client c) evs))
            [[], [e1], [e1, WaitTimeout], [e1, WaitTimeout, e2], [e1, WaitTimeout, e2, WaitTimeout],
             [e1, WaitTimeout, e2, WaitTimeout, e3], [e1, WaitTimeout, e2, WaitTimeout, e3, WaitTimeout]] =
           [Connecting, Waiting 10, Connecting, Waiting 10, Connecting, Waiting 10, Connecting]
       \<and> retry_bounded (run_v5_2 (new_client c) evs) \<and> retry_bounded (run_v5_0 (new_client c) evs)
       \<and> at (step h (cf\<lparr>at := Waiting t\<rparr>) (StopCall b)) = Finished"
proof -
  have "run_v5_2 (new_client c) [e1, WaitTimeout, e2, WaitTimeout, e3, WaitTimeout, e4] =
           \<lparr>at = Finished, cl = (new_client c)\<lparr>reconnect_attempts := 4\<rparr>,
            out = [Status (cname c) WarningSign (error_type_of (py_lower m1)),
                   Status (cname c) YellowCircle ''Reconnecting (1/3)...'',
                   Status (cname c) WarningSign (error_type_of (py_lower m2)),
                   Status (cname c) YellowCircle ''Reconnecting (2/3)...'',
                   Status (cname c) WarningSign (error_type_of (py_lower m3)),
                   Status (cname c) YellowCircle ''Reconnecting (3/3)...'',
                   Status (cname c) WarningSign (error_type_of (py_lower m4)),
                   Status (cname c) RedCircle (''Disconnected ('' @ error_type_of (py_lower m4) @ '')''),
                   Disconnect (cname c)]\<rparr>
       \<and> run_v5_0 (new_client c) [e1, WaitTimeout, e2, WaitTimeout, e3, WaitTimeout, e4] =
           run_v5_2 (new_client c) [e1, WaitTimeout, e2, WaitTimeout, e3, WaitTimeout, e4]
       \<and> map (\<lambda>evs. at (run_v5_2 (new_client c) evs))
            [[], [e1], [e1, WaitTimeout], [e1, WaitTimeout, e2], [e1, WaitTimeout, e2, WaitTimeout],
             [e1, WaitTimeout, e2, WaitTimeout, e3], [e1, WaitTimeout, e2, WaitTimeout, e3, WaitTimeout]] =
           [Connecting, Waiting 10, Connecting, Waiting 10, Connecting, Waiting 10, Connecting]
       \<and> map (\<lambda>evs. at (run_v5_0 (new_client c) evs))
            [[], [e1], [e1, WaitTimeout], [e1, WaitTimeout, e2], [e1, WaitTimeout, e2, WaitTimeout],
             [e1, WaitTimeout, e2, WaitTimeout, e3], [e1, WaitTimeout, e2, WaitTimeout, e3, WaitTimeout]] =
           [Connecting, Waiting 10, Connecting, Waiting 10, Connecting, Waiting 10, Connecting]"
    using f q
    by (simp add: run_v5_2_def run_v5_0_def step_failed_attempt conn_defs shutdown_error_iff Let_def str_small)
  then show ?thesis
    using run_retry_bounded [of c evs] wait_interruptible by (intro conjI) simp_all
qed

lemma ex_failed [simp]: "failed_attempt (ConnectFail m) m" by (simp add: failed_attempt_def)

lemma timed_out_marker: "\<not> has_shutdown_marker ''timed out''"
  by (simp add: has_shutdown_marker_def py_lower_def lower_char_def)

theorem four_failures_witness:
  "at (run_v5_2 (new_client caster_A)
         [ConnectFail ''timed out'', WaitTimeout, ConnectFail ''timed out'', WaitTimeout,
          ConnectFail ''timed out'', WaitTimeout, ConnectFail ''timed out'']) = Finished"
  using four_failures_then_disconnected [of "ConnectFail ''timed out''" "''timed out''"
      "ConnectFail ''timed out''" "''timed out''" "ConnectFail ''timed out''" "''timed out''"
      "ConnectFail ''timed out''" "''timed out''" caster_A]
  by (simp add: timed_out_marker)

text \<open>
  Claim C1 as stated fails: after three failed attempts the thread is making a fourth
  one and has emitted no "Disconnected" status; when that attempt succeeds the
  connection streams.
\<close>

theorem three_failures_counterexample:
  "run_v5_2 (new_client caster_A)
     [ConnectFail ''timed out'', WaitTimeout, ConnectFail ''timed out'', WaitTimeout,
      ConnectFail ''timed out'', WaitTimeout] =
     \<lparr>at = Connecting, cl = (new_client caster_A)\<lparr>reconnect_attempts := 3\<rparr>,
      out = [Status ''A'' WarningSign ''Connection timeout'',
             Status ''A'' YellowCircle ''Reconnecting (1/3)...'',
             Status ''A'' WarningSign ''Connection timeout'',
             Status ''A'' YellowCircle ''Reconnecting (2/3)...'',
             Status ''A'' WarningSign ''Connection timeout'',
             Status ''A'' YellowCircle ''Reconnecting (3/3)...'']\<rparr>
   \<and> run_v5_2 (new_client caster_A)
     [ConnectFail ''timed out'', WaitTimeout, ConnectFail ''timed out'', WaitTimeout,
      ConnectFail ''timed out'', WaitTimeout, Handshake ''ICY 200 OK''] =
     \<lparr>at = Receiving,
      cl = (new_client caster_A)\<lparr>running := True, socket := OpenSocket\<rparr>,
      out = [Status ''A'' WarningSign ''Connection timeout'',
             Status ''A'' YellowCircle ''Reconnecting (1/3)...'',
             Status ''A'' WarningSign ''Connection timeout'',
             Status ''A'' YellowCircle ''Reconnecting (2/3)...'',
             Status ''A'' WarningSign ''Connection timeout'',
             Status ''A'' YellowCircle ''Reconnecting (3/3)...'',
             Status ''A'' CheckMark ''Connection OK'']\<rparr>"
  by code_simp

text \<open>
  Claim C7: a socket error that a local \<^verbatim>\<open>stop()\<close> caused is not to be reported. Version
  5.0 reports it when the stop was not user-initiated (as the calls from the remove and
  edit handlers are): here the read fails after \<^verbatim>\<open>stop()\<close> closed the socket, and the
  warning and a reconnect status go out. Version 5.2 stays silent on the same input.
\<close>

theorem local_stop_error_reported_v5_0:
  "out (run_v5_0 (new_client caster_A)
          [Handshake ''ICY 200 OK'', StopCall False, RecvFail ''[Errno 9] Bad file descriptor'']) =
     [Status ''A'' CheckMark ''Connection OK'',
      Status ''A'' WarningSign ''Network error'',
      Status ''A'' YellowCircle ''Reconnecting (1/3)...'',
      Disconnect ''A'']
   \<and> out (run_v5_2 (new_client caster_A)
          [Handshake ''ICY 200 OK'', StopCall False, RecvFail ''[Errno 9] Bad file descriptor'']) =
     [Status ''A'' CheckMark ''Connection OK'', Disconnect ''A'']"
  by code_simp

text \<open>
  Claim C9 as stated fails: on the same observations the two versions emit different
  statuses and end in different client states, after a stop that is not user-initiated
  and on an error text with a shutdown marker.
\<close>

theorem versions_differ_counterexample:
  "run_v5_0 (new_client caster_A) [Handshake ''ICY 200 OK'', StopCall False, RecvData []] =
     \<lparr>at = Finished,
      cl = (new_client caster_A)\<lparr>socket := ClosedSocket, reconnect_attempts := 1, stop_event := True\<rparr>,
      out = [Status ''A'' CheckMark ''Connection OK'',
             Status ''A'' WarningSign ''Network error'',
             Status ''A'' YellowCircle ''Reconnecting (1/3)...'',
             Disconnect ''A'']\<rparr>
   \<and> run_v5_2 (new_client caster_A) [Handshake ''ICY 200 OK'', StopCall False, RecvData []] =
     \<lparr>at = Finished,
      cl = (new_client caster_A)\<lparr>socket := ClosedSocket, stop_event := True\<rparr>,
      out = [Status ''A'' CheckMark ''Connection OK'', Disconnect ''A'']\<rparr>
   \<and> out (run_v5_0 (new_client caster_A) [ConnectFail ''[Errno 9] Bad file descriptor'']) =
       [Status ''A'' WarningSign ''Network error'', Status ''A'' YellowCircle ''Reconnecting (1/3)...'']
   \<and> out (run_v5_2 (new_client caster_A) [ConnectFail ''[Errno 9] Bad file descriptor'']) =
       [Disconnect ''A'']"
  by code_simp

lemma step_v5_2_after_stop:
  assumes "stop_event (cl cf)"
  shows "stop_event (cl (step handler_v5_2 cf e)) \<and>
         (\<exists>new. out (step handler_v5_2 cf e) = out cf @ new \<and> \<not> list_ex error_status new)"
  using assms
  by (cases e)
     (auto simp: conn_defs is_shutdown_error_def error_status_def Let_def split: pc.splits)

lemma v5_2_silent_after_stop:
  "stop_event (cl cf) \<Longrightarrow>
     \<exists>new. out (foldl (step handler_v5_2) cf evs) = out cf @ new \<and> \<not> list_ex error_status new"
proof (induction evs arbitrary: cf)
  case Nil
  then show ?case by simp
next
  case (Cons e evs)
  from step_v5_2_after_stop [OF Cons.prems, of e]
  obtain n1 where s: "stop_event (cl (step handler_v5_2 cf e))"
    and o1: "out (step handler_v5_2 cf e) = out cf @ n1" and e1: "\<not> list_ex error_status n1"
    by blast
  from Cons.IH [OF s] obtain n2 where
    o2: "out (foldl (step handler_v5_2) (step handler_v5_2 cf e) evs) = out (step handler_v5_2 cf e) @ n2"
    and e2: "\<not> list_ex error_status n2" by blast
  have "out (foldl (step handler_v5_2) cf (e # evs)) = out cf @ (n1 @ n2)"
    using o1 o2 by simp
  moreover have "\<not> list_ex error_status (n1 @ n2)" using e1 e2 by simp
  ultimately show ?case by blast
qed

lemma steps_agree_off_branch:
  "\<not> shutdown_branch cf e \<Longrightarrow> step handler_v5_0 cf e = step handler_v5_2 cf e"
  by (cases e)
     (auto simp: shutdown_branch_def handled_text_def handler_v5_0_def handler_v5_2_def Let_def
           split: if_splits)

lemma out_break_outer: "out (break_outer cf) = out cf @ [Disconnect (cname (config (cl cf)))]"
  and at_break_outer: "at (break_outer cf) = Finished"
  by (simp_all add: break_outer_def leave_run_def emit_def finally_clause_def)

lemma out_report_and_retry:
  "\<exists>rest. out (report_and_retry m cf) =
     out cf @ Status (cname (config (cl cf))) WarningSign (error_type_of m) # rest"
  by (simp add: report_and_retry_def Let_def emit_def break_outer_def leave_run_def
        finally_clause_def)

lemma steps_differ_on_branch:
  assumes "shutdown_branch cf e"
  shows "step handler_v5_2 cf e = break_outer cf"
    and "\<exists>t rest. out (step handler_v5_0 cf e) =
            out cf @ Status (cname (config (cl cf))) WarningSign t # rest"
proof -
  from assms obtain msg where m: "handled_text cf e = Some msg"
    and u: "\<not> user_stopped (cl cf)" and s: "is_shutdown_error (py_lower msg) (cl cf)"
    by (auto simp: shutdown_branch_def split: option.splits)
  have h2: "step handler_v5_2 cf e = handler_v5_2 msg cf"
    using m u by (cases e) (auto simp: handled_text_def split: if_splits)
  have h0: "step handler_v5_0 cf e = handler_v5_0 msg cf"
    using m u by (cases e) (auto simp: handled_text_def split: if_splits)
  show "step handler_v5_2 cf e = break_outer cf"
    using u s by (simp add: h2 handler_v5_2_def)
  have "step handler_v5_0 cf e = report_and_retry (py_lower msg) cf"
    using u by (simp add: h0 handler_v5_0_def)
  then show "\<exists>t rest. out (step handler_v5_0 cf e) =
            out cf @ Status (cname (config (cl cf))) WarningSign t # rest"
    using out_report_and_retry [of "py_lower msg" cf] by auto
qed

lemma step_finished: "at cf = Finished \<Longrightarrow> step h cf e = cf\<lparr>cl := cl (step h cf e)\<rparr>"
  by (cases e) (simp_all add: Let_def)

lemma foldl_finished:
  "at cf = Finished \<Longrightarrow>
     out (foldl (step h) cf evs) = out cf \<and> at (foldl (step h) cf evs) = Finished"
proof (induction evs arbitrary: cf)
  case Nil
  then show ?case by simp
next
  case (Cons e evs)
  have s: "step h cf e = cf\<lparr>cl := cl (step h cf e)\<rparr>" using Cons.prems by (rule step_finished)
  have "at (step h cf e) = Finished" by (subst s) (simp add: Cons.prems)
  from Cons.IH [OF this] have "out (foldl (step h) (step h cf e) evs) = out (step h cf e)"
    and "at (foldl (step h) (step h cf e) evs) = Finished" by simp_all
  moreover have "out (step h cf e) = out cf" by (subst s) simp
  ultimately show ?case by simp
qed

lemma step_out_grows_v5_0: "\<exists>new. out (step handler_v5_0 cf e) = out cf @ new"
  by (cases e) (auto simp: conn_defs Let_def split: pc.splits)

lemma foldl_out_grows_v5_0: "\<exists>new. out (foldl (step handler_v5_0) cf evs) = out cf @ new"
proof (induction evs arbitrary: cf)
  case Nil
  show ?case by simp
next
  case (Cons e evs)
  obtain n1 where a: "out (step handler_v5_0 cf e) = out cf @ n1"
    using step_out_grows_v5_0 by blast
  obtain n2 where "out (foldl (step handler_v5_0) (step handler_v5_0 cf e) evs) =
      out (step handler_v5_0 cf e) @ n2" using Cons.IH by blast
  then have "out (foldl (step handler_v5_0) cf (e # evs)) = out cf @ (n1 @ n2)"
    using a by simp
  then show ?case by blast
qed

lemma folds_agree_off_branch:
  "never_shutdown_branch cf evs \<Longrightarrow>
     foldl (step handler_v5_0) cf evs = foldl (step handler_v5_2) cf evs"
proof (induction evs arbitrary: cf)
  case Nil
  show ?case by simp
next
  case (Cons e evs)
  then have n: "\<not> shutdown_branch cf e"
    and r: "never_shutdown_branch (step handler_v5_2 cf e) evs" by simp_all
  have eq: "step handler_v5_0 cf e = step handler_v5_2 cf e"
    using n by (rule steps_agree_off_branch)
  from Cons.IH [OF r] show ?case by (simp add: eq)
qed

lemma folds_differ_on_branch:
  "\<not> never_shutdown_branch cf evs \<Longrightarrow>
     out (foldl (step handler_v5_0) cf evs) \<noteq> out (foldl (step handler_v5_2) cf evs)"
proof (induction evs arbitrary: cf)
  case Nil
  then show ?case by simp
next
  case (Cons e evs)
  show ?case
  proof (cases "shutdown_branch cf e")
    case True
    have s2: "step handler_v5_2 cf e = break_outer cf"
      using True by (rule steps_differ_on_branch(1))
    have "out (foldl (step handler_v5_2) (break_outer cf) evs) = out (break_outer cf)"
      using foldl_finished [OF at_break_outer] by simp
    then have o2: "out (foldl (step handler_v5_2) cf (e # evs)) =
        out cf @ [Disconnect (cname (config (cl cf)))]"
      by (simp add: s2 out_break_outer)
    obtain t rest where a: "out (step handler_v5_0 cf e) =
        out cf @ Status (cname (config (cl cf))) WarningSign t # rest"
      using steps_differ_on_branch(2) [OF True] by blast
    obtain new where "out (foldl (step handler_v5_0) (step handler_v5_0 cf e) evs) =
        out (step handler_v5_0 cf e) @ new" using foldl_out_grows_v5_0 by blast
    then have o0: "out (foldl (step handler_v5_0) cf (e # evs)) =
        out cf @ Status (cname (config (cl cf))) WarningSign t # rest @ new"
      using a by simp
    show ?thesis unfolding o0 o2 by simp
  next
    case False
    then have eq: "step handler_v5_0 cf e = step handler_v5_2 cf e"
      by (rule steps_agree_off_branch)
    have "\<not> never_shutdown_branch (step handler_v5_2 cf e) evs"
      using Cons.prems False by simp
    from Cons.IH [OF this] show ?thesis by (simp add: eq)
  qed
qed

text \<open>
  Claim C9, as amended. A call of \<^verbatim>\<open>stop\<close> is taken to land while \<^verbatim>\<open>run\<close> is blocked: in the
  connection and handshake section, in \<^verbatim>\<open>recv\<close>, in \<^verbatim>\<open>stop_event.wait\<close>, or after \<^verbatim>\<open>run\<close> has
  returned; a stop that lands between two statements of the \<^verbatim>\<open>except\<close> clause is not
  covered. Under that condition the two versions of \<^verbatim>\<open>run\<close> emit the same signals, and
  also reach the same client state, exactly on the runs where no exception reaches the
  \<^verbatim>\<open>except\<close> clause while \<^verbatim>\<open>user_stopped\<close> is false and either its text carries one of the
  three shutdown markers or the stop event is set. A stop that is not user-initiated
  separates the versions only when such an exception follows it. The pictographs of the
  status texts, which the two files encode differently, are compared as icons.
\<close>

theorem versions_agree_iff:
  "(run_v5_0 c evs = run_v5_2 c evs) = never_shutdown_branch (start c) evs
   \<and> (out (run_v5_0 c evs) = out (run_v5_2 c evs)) = never_shutdown_branch (start c) evs"
proof (cases "never_shutdown_branch (start c) evs")
  case True
  then have "run_v5_0 c evs = run_v5_2 c evs"
    unfolding run_v5_0_def run_v5_2_def by (rule folds_agree_off_branch)
  then show ?thesis using True by simp
next
  case False
  then have "out (run_v5_0 c evs) \<noteq> out (run_v5_2 c evs)"
    unfolding run_v5_0_def run_v5_2_def by (rule folds_differ_on_branch)
  then show ?thesis using False by auto
qed

theorem versions_agree_witness:
  "never_shutdown_branch (start (new_client caster_A))
     [Handshake ''ICY 200 OK'', RecvData ''abc'', StopCall False, RecvTimeout]
   \<and> run_v5_0 (new_client caster_A)
        [Handshake ''ICY 200 OK'', RecvData ''abc'', StopCall False, RecvTimeout] =
      run_v5_2 (new_client caster_A)
        [Handshake ''ICY 200 OK'', RecvData ''abc'', StopCall False, RecvTimeout]
   \<and> never_shutdown_branch (start (new_client caster_A))
        [ConnectFail ''timed out'', StopCall True, WaitTimeout]
   \<and> out (run_v5_0 (new_client caster_A) [ConnectFail ''timed out'', StopCall True, WaitTimeout]) =
      out (run_v5_2 (new_client caster_A) [ConnectFail ''timed out'', StopCall True, WaitTimeout])
   \<and> \<not> never_shutdown_branch (start (new_client caster_A))
        [Handshake ''ICY 200 OK'', StopCall False, RecvData []]
   \<and> out (run_v5_0 (new_client caster_A) [Handshake ''ICY 200 OK'', StopCall False, RecvData []]) \<noteq>
      out (run_v5_2 (new_client caster_A) [Handshake ''ICY 200 OK'', StopCall False, RecvData []])"
proof -
  have a: "never_shutdown_branch (start (new_client caster_A))
     [Handshake ''ICY 200 OK'', RecvData ''abc'', StopCall False, RecvTimeout]"
    by code_simp
  have b: "never_shutdown_branch (start (new_client caster_A))
        [ConnectFail ''timed out'', StopCall True, WaitTimeout]"
    by code_simp
  have c: "\<not> never_shutdown_branch (start (new_client caster_A))
        [Handshake ''ICY 200 OK'', StopCall False, RecvData []]"
    by code_simp
  show ?thesis
    using a b c
      versions_agree_iff [of "new_client caster_A"
        "[Handshake ''ICY 200 OK'', RecvData ''abc'', StopCall False, RecvTimeout]"]
      versions_agree_iff [of "new_client caster_A"
        "[ConnectFail ''timed out'', StopCall True, WaitTimeout]"]
      versions_agree_iff [of "new_client caster_A"
        "[Handshake ''ICY 200 OK'', StopCall False, RecvData []]"]
    by simp
qed

text \<open>
  The condition on where a stop lands is needed. When \<^verbatim>\<open>stop\<close> is called while the \<^verbatim>\<open>except\<close>
  clause runs, right after its test of \<^verbatim>\<open>user_stopped\<close>, the rest of the clause of version
  5.2 finds the stop event set and breaks, while the rest of the clause of version 5.0
  emits the warning.
\<close>

lemma stop_inside_except_clause:
  "is_shutdown_error error_msg (stop user_initiated c)"
  "\<exists>rest. out (report_and_retry error_msg (cf\<lparr>cl := stop user_initiated (cl cf)\<rparr>)) =
     out cf @ Status (cname (config (cl cf))) WarningSign (error_type_of error_msg) # rest"
proof -
  show "is_shutdown_error error_msg (stop user_initiated c)"
    by (simp add: is_shutdown_error_def stop_def)
  show "\<exists>rest. out (report_and_retry error_msg (cf\<lparr>cl := stop user_initiated (cl cf)\<rparr>)) =
     out cf @ Status (cname (config (cl cf))) WarningSign (error_type_of error_msg) # rest"
    using out_report_and_retry [of error_msg "cf\<lparr>cl := stop user_initiated (cl cf)\<rparr>"]
    by (simp add: stop_def)
qed

lemma fold_net_append_total:
  "total_bytes (fold net_append chunks c) = total_bytes c + sum_list (map (\<lambda>b. int (length b)) chunks)"
  by (induction chunks arbitrary: c) (simp_all add: net_append_def)

lemma fold_net_append_buffer:
  "buffer (fold net_append chunks c) = buffer c @ concat chunks"
  by (induction chunks arbitrary: c) (simp_all add: net_append_def)

lemma net_append_fields:
  "running (net_append d c) = running c"
  "stop_event (net_append d c) = stop_event c"
  "config (net_append d c) = config c"
  by (simp_all add: net_append_def)

lemma reads_fold:
  "at cf = Receiving \<Longrightarrow> running (cl cf) \<Longrightarrow> \<not> stop_event (cl cf) \<Longrightarrow> [] \<notin> set chunks \<Longrightarrow>
     foldl (step h) cf (map RecvData chunks) =
       cf\<lparr>cl := fold net_append chunks (cl cf),
          out := out cf @ replicate (length chunks) (Data (cname (config (cl cf))))\<rparr>"
proof (induction chunks arbitrary: cf)
  case Nil
  then show ?case by simp
next
  case (Cons d ds)
  let ?cf1 = "cf\<lparr>cl := net_append d (cl cf), out := out cf @ [Data (cname (config (cl cf)))]\<rparr>"
  have s: "step h cf (RecvData d) = ?cf1"
    using Cons.prems by (auto simp: stream_check_def emit_def net_append_fields)
  have "foldl (step h) cf (map RecvData (d # ds)) = foldl (step h) ?cf1 (map RecvData ds)"
    by (simp only: list.map foldl_Cons s)
  also have "\<dots> = ?cf1\<lparr>cl := fold net_append ds (cl ?cf1),
           out := out ?cf1 @ replicate (length ds) (Data (cname (config (cl ?cf1))))\<rparr>"
    using Cons.prems by (intro Cons.IH) (simp_all add: net_append_fields)
  also have "\<dots> = cf\<lparr>cl := fold net_append (d # ds) (cl cf),
          out := out cf @ replicate (length (d # ds)) (Data (cname (config (cl cf))))\<rparr>"
    by (simp add: net_append_fields)
  finally show ?case .
qed

lemma step_total_mono_v5_2: "total_bytes (cl cf) \<le> total_bytes (cl (step handler_v5_2 cf e))"
  by (cases e) (auto simp: conn_defs Let_def split: pc.splits)

lemma step_total_mono_v5_0: "total_bytes (cl cf) \<le> total_bytes (cl (step handler_v5_0 cf e))"
  by (cases e) (auto simp: conn_defs Let_def split: pc.splits)

lemma foldl_total_mono_v5_2:
  "total_bytes (cl cf) \<le> total_bytes (cl (foldl (step handler_v5_2) cf evs))"
proof (induction evs arbitrary: cf)
  case Nil
  show ?case by simp
next
  case (Cons e evs)
  have "total_bytes (cl cf) \<le> total_bytes (cl (step handler_v5_2 cf e))"
    by (rule step_total_mono_v5_2)
  also have "\<dots> \<le> total_bytes (cl (foldl (step handler_v5_2) (step handler_v5_2 cf e) evs))"
    by (rule Cons.IH)
  finally show ?case by simp
qed

lemma foldl_total_mono_v5_0:
  "total_bytes (cl cf) \<le> total_bytes (cl (foldl (step handler_v5_0) cf evs))"
proof (induction evs arbitrary: cf)
  case Nil
  show ?case by simp
next
  case (Cons e evs)
  have "total_bytes (cl cf) \<le> total_bytes (cl (step handler_v5_0 cf e))"
    by (rule step_total_mono_v5_0)
  also have "\<dots> \<le> total_bytes (cl (foldl (step handler_v5_0) (step handler_v5_0 cf e) evs))"
    by (rule Cons.IH)
  finally show ?case by simp
qed

lemma step_counted_v5_2: "counted cf \<Longrightarrow> counted (step handler_v5_2 cf e)"
  by (cases e) (auto simp: counted_def conn_defs Let_def split: pc.splits)

lemma step_counted_v5_0: "counted cf \<Longrightarrow> counted (step handler_v5_0 cf e)"
  by (cases e) (auto simp: counted_def conn_defs Let_def split: pc.splits)

lemma foldl_counted_v5_2: "counted cf \<Longrightarrow> counted (foldl (step handler_v5_2) cf evs)"
  by (induction evs arbitrary: cf) (simp_all add: step_counted_v5_2)

lemma foldl_counted_v5_0: "counted cf \<Longrightarrow> counted (foldl (step handler_v5_0) cf evs)"
  by (induction evs arbitrary: cf) (simp_all add: step_counted_v5_0)

lemma start_counted: "counted (start (new_client c))"
  by (simp add: counted_def conn_defs)

lemma after_handshake:
  "\<not> header_rejected header \<Longrightarrow>
     step h (start (new_client c)) (Handshake header) =
       \<lparr>at = Receiving, cl = (new_client c)\<lparr>running := True, socket := OpenSocket\<rparr>,
        out = [Status (cname c) CheckMark ''Connection OK'']\<rparr>"
  by (simp add: conn_defs)

lemma step_reads_v5_2:
  "buffer (cl (step handler_v5_2 cf e)) = buffer (cl cf) @ concat (reads_of handler_v5_2 cf [e])
   \<and> total_bytes (cl (step handler_v5_2 cf e)) =
       total_bytes (cl cf) + sum_list (map (\<lambda>b. int (length b)) (reads_of handler_v5_2 cf [e]))"
  by (cases e) (auto simp: conn_defs Let_def split: pc.splits)

lemma step_reads_v5_0:
  "buffer (cl (step handler_v5_0 cf e)) = buffer (cl cf) @ concat (reads_of handler_v5_0 cf [e])
   \<and> total_bytes (cl (step handler_v5_0 cf e)) =
       total_bytes (cl cf) + sum_list (map (\<lambda>b. int (length b)) (reads_of handler_v5_0 cf [e]))"
  by (cases e) (auto simp: conn_defs Let_def split: pc.splits)

lemma reads_of_Cons: "reads_of h cf (e # evs) = reads_of h cf [e] @ reads_of h (step h cf e) evs"
  by simp

lemma foldl_reads_v5_2:
  "buffer (cl (foldl (step handler_v5_2) cf evs)) =
     buffer (cl cf) @ concat (reads_of handler_v5_2 cf evs)
   \<and> total_bytes (cl (foldl (step handler_v5_2) cf evs)) =
       total_bytes (cl cf) + sum_list (map (\<lambda>b. int (length b)) (reads_of handler_v5_2 cf evs))"
proof (induction evs arbitrary: cf)
  case Nil
  show ?case by simp
next
  case (Cons e evs)
  note s = step_reads_v5_2 [of cf e]
  note i = Cons.IH [of "step handler_v5_2 cf e"]
  show ?case
    unfolding foldl_Cons reads_of_Cons [of _ _ e evs] using s i by simp
qed

lemma foldl_reads_v5_0:
  "buffer (cl (foldl (step handler_v5_0) cf evs)) =
     buffer (cl cf) @ concat (reads_of handler_v5_0 cf evs)
   \<and> total_bytes (cl (foldl (step handler_v5_0) cf evs)) =
       total_bytes (cl cf) + sum_list (map (\<lambda>b. int (length b)) (reads_of handler_v5_0 cf evs))"
proof (induction evs arbitrary: cf)
  case Nil
  show ?case by simp
next
  case (Cons e evs)
  note s = step_reads_v5_0 [of cf e]
  note i = Cons.IH [of "step handler_v5_0 cf e"]
  show ?case
    unfolding foldl_Cons reads_of_Cons [of _ _ e evs] using s i by simp
qed

lemma start_fields: "buffer (cl (start c)) = buffer c" "total_bytes (cl (start c)) = total_bytes c"
  by (simp_all add: conn_defs)

lemma reads_while_streaming:
  "at cf = Receiving \<Longrightarrow> running (cl cf) \<Longrightarrow> \<not> stop_event (cl cf) \<Longrightarrow>
     list_all read_or_timeout evs \<Longrightarrow> reads_of h cf evs = payloads evs"
proof (induction evs arbitrary: cf)
  case Nil
  show ?case by (simp add: payloads_def)
next
  case (Cons e evs)
  from Cons.prems(4) have e: "read_or_timeout e" and r: "list_all read_or_timeout evs"
    by simp_all
  have p: "at (step h cf e) = Receiving \<and> running (cl (step h cf e))
      \<and> \<not> stop_event (cl (step h cf e))
      \<and> reads_of h cf [e] = payloads [e]"
    using e Cons.prems(1-3)
    by (cases e)
       (auto simp: read_or_timeout_def payloads_def stream_check_def emit_def net_append_fields)
  then have "reads_of h (step h cf e) evs = payloads evs"
    using r by (intro Cons.IH) simp_all
  moreover have "payloads (e # evs) = payloads [e] @ payloads evs" by (simp add: payloads_def)
  ultimately show ?case using p by (simp only: reads_of_Cons [of h cf e evs])
qed

text \<open>
  Claim C8. Whatever a run observes and whatever client it starts from, the buffer is
  the initial buffer followed by the chunks its reads returned, in the order read, and
  \<^verbatim>\<open>total_bytes\<close> is its initial value plus the sum of their lengths. After a successful
  handshake, while reads return data or time out, the chunks are the data of all the
  reads; so after N reads that return the non-empty chunks b1 .. bN, \<^verbatim>\<open>total_bytes\<close> is the
  sum of their lengths and the buffer is their concatenation. As long as no decode pass
  trims the buffer, \<^verbatim>\<open>total_bytes\<close> is the length of the buffer whatever happened; and
  \<^verbatim>\<open>total_bytes\<close> never decreases as a run goes on.
\<close>

theorem reads_accumulate:
  "buffer (cl (run_v5_2 c0 evs)) = buffer c0 @ concat (reads_of handler_v5_2 (start c0) evs)
   \<and> total_bytes (cl (run_v5_2 c0 evs)) =
       total_bytes c0 + sum_list (map (\<lambda>b. int (length b)) (reads_of handler_v5_2 (start c0) evs))
   \<and> buffer (cl (run_v5_0 c0 evs)) = buffer c0 @ concat (reads_of handler_v5_0 (start c0) evs)
   \<and> total_bytes (cl (run_v5_0 c0 evs)) =
       total_bytes c0 + sum_list (map (\<lambda>b. int (length b)) (reads_of handler_v5_0 (start c0) evs))
   \<and> (\<not> header_rejected header \<and> list_all read_or_timeout obs \<longrightarrow>
        reads_of handler_v5_2 (start (new_client c)) (Handshake header # obs) = payloads obs
      \<and> reads_of handler_v5_0 (start (new_client c)) (Handshake header # obs) = payloads obs)
   \<and> (\<not> header_rejected header \<and> [] \<notin> set chunks \<longrightarrow>
        total_bytes (cl (run_v5_2 (new_client c) (Handshake header # map RecvData chunks))) =
           sum_list (map (\<lambda>b. int (length b)) chunks)
      \<and> buffer (cl (run_v5_2 (new_client c) (Handshake header # map RecvData chunks))) = concat chunks
      \<and> total_bytes (cl (run_v5_0 (new_client c) (Handshake header # map RecvData chunks))) =
           sum_list (map (\<lambda>b. int (length b)) chunks)
      \<and> buffer (cl (run_v5_0 (new_client c) (Handshake header # map RecvData chunks))) = concat chunks)
   \<and> total_bytes (cl (run_v5_2 (new_client c) evs)) = int (length (buffer (cl (run_v5_2 (new_client c) evs))))
   \<and> total_bytes (cl (run_v5_0 (new_client c) evs)) = int (length (buffer (cl (run_v5_0 (new_client c) evs))))
   \<and> total_bytes (cl (run_v5_2 c0 evs)) \<le> total_bytes (cl (run_v5_2 c0 (evs @ rest)))
   \<and> total_bytes (cl (run_v5_0 c0 evs)) \<le> total_bytes (cl (run_v5_0 c0 (evs @ rest)))"
proof -
  let ?cf = "\<lparr>at = Receiving, cl = (new_client c)\<lparr>running := True, socket := OpenSocket\<rparr>,
              out = [Status (cname c) CheckMark ''Connection OK'']\<rparr>"
  have g2: "buffer (cl (run_v5_2 c0 evs)) = buffer c0 @ concat (reads_of handler_v5_2 (start c0) evs)
      \<and> total_bytes (cl (run_v5_2 c0 evs)) =
          total_bytes c0 + sum_list (map (\<lambda>b. int (length b)) (reads_of handler_v5_2 (start c0) evs))"
    using foldl_reads_v5_2 [of "start c0" evs] by (simp only: run_v5_2_def start_fields)
  have g0: "buffer (cl (run_v5_0 c0 evs)) = buffer c0 @ concat (reads_of handler_v5_0 (start c0) evs)
      \<and> total_bytes (cl (run_v5_0 c0 evs)) =
          total_bytes c0 + sum_list (map (\<lambda>b. int (length b)) (reads_of handler_v5_0 (start c0) evs))"
    using foldl_reads_v5_0 [of "start c0" evs] by (simp only: run_v5_0_def start_fields)
  have p: "reads_of h (start (new_client c)) (Handshake header # obs) = payloads obs"
    if "\<not> header_rejected header" and "list_all read_or_timeout obs" for h
  proof -
    have "reads_of h ?cf obs = payloads obs"
      using that(2) by (intro reads_while_streaming) (simp_all add: new_client_def)
    then show ?thesis
      by (simp only: reads_of_Cons [of h _ "Handshake header" obs] after_handshake [OF that(1)])
         simp
  qed
  have a: "total_bytes (cl (foldl (step h) (start (new_client c)) (Handshake header # map RecvData chunks))) =
             sum_list (map (\<lambda>b. int (length b)) chunks)
         \<and> buffer (cl (foldl (step h) (start (new_client c)) (Handshake header # map RecvData chunks))) =
             concat chunks"
    if hd: "\<not> header_rejected header" and ne: "[] \<notin> set chunks" for h
  proof -
    have r: "foldl (step h) ?cf (map RecvData chunks) =
        ?cf\<lparr>cl := fold net_append chunks (cl ?cf),
            out := out ?cf @ replicate (length chunks) (Data (cname (config (cl ?cf))))\<rparr>"
      using ne by (intro reads_fold) (simp_all add: new_client_def)
    show ?thesis
      unfolding foldl_Cons after_handshake [OF hd] r
      by (simp add: fold_net_append_total fold_net_append_buffer new_client_def)
  qed
  have c2: "counted (run_v5_2 (new_client c) evs)"
    unfolding run_v5_2_def by (rule foldl_counted_v5_2 [OF start_counted])
  have c0: "counted (run_v5_0 (new_client c) evs)"
    unfolding run_v5_0_def by (rule foldl_counted_v5_0 [OF start_counted])
  have m2: "total_bytes (cl (run_v5_2 c0 evs)) \<le> total_bytes (cl (run_v5_2 c0 (evs @ rest)))"
    by (simp add: run_v5_2_def foldl_total_mono_v5_2)
  have m0: "total_bytes (cl (run_v5_0 c0 evs)) \<le> total_bytes (cl (run_v5_0 c0 (evs @ rest)))"
    by (simp add: run_v5_0_def foldl_total_mono_v5_0)
  have s: "\<not> header_rejected header \<and> [] \<notin> set chunks \<longrightarrow>
        total_bytes (cl (run_v5_2 (new_client c) (Handshake header # map RecvData chunks))) =
           sum_list (map (\<lambda>b. int (length b)) chunks)
      \<and> buffer (cl (run_v5_2 (new_client c) (Handshake header # map RecvData chunks))) = concat chunks
      \<and> total_bytes (cl (run_v5_0 (new_client c) (Handshake header # map RecvData chunks))) =
           sum_list (map (\<lambda>b. int (length b)) chunks)
      \<and> buffer (cl (run_v5_0 (new_client c) (Handshake header # map RecvData chunks))) = concat chunks"
    using a [of handler_v5_2] a [of handler_v5_0] by (simp only: run_v5_2_def run_v5_0_def) blast
  have q: "\<not> header_rejected header \<and> list_all read_or_timeout obs \<longrightarrow>
        reads_of handler_v5_2 (start (new_client c)) (Handshake header # obs) = payloads obs
      \<and> reads_of handler_v5_0 (start (new_client c)) (Handshake header # obs) = payloads obs"
    using p [of handler_v5_2] p [of handler_v5_0] by blast
  have k: "total_bytes (cl (run_v5_2 (new_client c) evs)) = int (length (buffer (cl (run_v5_2 (new_client c) evs))))
     \<and> total_bytes (cl (run_v5_0 (new_client c) evs)) = int (length (buffer (cl (run_v5_0 (new_client c) evs))))"
    using c2 c0 by (simp add: counted_def)
  from g2 g0 q s k m2 m0 show ?thesis by (intro conjI) (erule conjunct1 conjunct2 | assumption)+
qed

theorem reads_accumulate_witness:
  "total_bytes (cl (run_v5_2 (new_client caster_A)
       (Handshake ''ICY 200 OK'' # map RecvData [''ab'', ''cde'']))) = 5
   \<and> buffer (cl (run_v5_2 (new_client caster_A)
       (Handshake ''ICY 200 OK'' # map RecvData [''ab'', ''cde'']))) = ''abcde''
   \<and> buffer (cl (run_v5_2 (new_client caster_A)
       [Handshake ''ICY 200 OK'', RecvData ''ab'', RecvTimeout, RecvData ''cde''])) = ''abcde''
   \<and> total_bytes (cl (run_v5_0 (new_client caster_A)
       [Handshake ''ICY 200 OK'', RecvData ''ab'', RecvTimeout, RecvData ''cde''])) = 5"
proof -
  have h: "\<not> header_rejected ''ICY 200 OK''" by (simp add: header_rejected_def)
  have n: "[] \<notin> set [''ab'', ''cde'']" by simp
  have t: "list_all read_or_timeout [RecvData ''ab'', RecvTimeout, RecvData ''cde'']"
    by (simp add: read_or_timeout_def)
  have b: "buffer (new_client caster_A) = []" "total_bytes (new_client caster_A) = 0"
    by (simp_all add: new_client_def)
  note r1 = reads_accumulate [of "new_client caster_A" "[]" "''ICY 200 OK''" "[]" caster_A
      "[''ab'', ''cde'']" "[]"]
  note r2 = reads_accumulate [of "new_client caster_A"
      "[Handshake ''ICY 200 OK'', RecvData ''ab'', RecvTimeout, RecvData ''cde'']"
      "''ICY 200 OK''" "[RecvData ''ab'', RecvTimeout, RecvData ''cde'']" caster_A "[]" "[]"]
  have w1: "total_bytes (cl (run_v5_2 (new_client caster_A)
       (Handshake ''ICY 200 OK'' # map RecvData [''ab'', ''cde'']))) = 5
   \<and> buffer (cl (run_v5_2 (new_client caster_A)
       (Handshake ''ICY 200 OK'' # map RecvData [''ab'', ''cde'']))) = ''abcde''"
    using r1 h n by simp
  let ?obs = "[RecvData ''ab'', RecvTimeout, RecvData ''cde'']"
  have e2: "reads_of handler_v5_2 (start (new_client caster_A)) (Handshake ''ICY 200 OK'' # ?obs) =
      payloads ?obs"
    and e0: "reads_of handler_v5_0 (start (new_client caster_A)) (Handshake ''ICY 200 OK'' # ?obs) =
      payloads ?obs"
    using r2 h t by blast+
  have "buffer (cl (run_v5_2 (new_client caster_A) (Handshake ''ICY 200 OK'' # ?obs))) =
      buffer (new_client caster_A) @ concat (payloads ?obs)"
    using r2 unfolding e2 by blast
  moreover have "total_bytes (cl (run_v5_0 (new_client caster_A) (Handshake ''ICY 200 OK'' # ?obs))) =
      total_bytes (new_client caster_A) + sum_list (map (\<lambda>b. int (length b)) (payloads ?obs))"
    using r2 unfolding e0 by blast
  ultimately have w2: "buffer (cl (run_v5_2 (new_client caster_A)
       [Handshake ''ICY 200 OK'', RecvData ''ab'', RecvTimeout, RecvData ''cde''])) = ''abcde''
   \<and> total_bytes (cl (run_v5_0 (new_client caster_A)
       [Handshake ''ICY 200 OK'', RecvData ''ab'', RecvTimeout, RecvData ''cde''])) = 5"
    by (simp add: payloads_def b)
  from w1 w2 show ?thesis by simp
qed

section \<open>Properties of the extraction\<close>

lemma of_char_digit_char: "d < 10 \<Longrightarrow> (of_char (digit_char d) :: nat) = 48 + d"
  by (simp add: digit_char_def)

lemma is_digit_digit_char: "d < 10 \<Longrightarrow> is_digit (digit_char d)"
  by (simp add: is_digit_def of_char_digit_char)

lemma digit_val_digit_char: "d < 10 \<Longrightarrow> digit_val (digit_char d) = d"
  by (simp add: digit_val_def of_char_digit_char)

lemma not_space_digit: "is_digit c \<Longrightarrow> \<not> is_space c"
  by (auto simp: is_digit_def is_space_def Let_def)

lemma digit_not_sign: "is_digit c \<Longrightarrow> c \<noteq> CHR ''-'' \<and> c \<noteq> CHR ''+'' \<and> c \<noteq> CHR ''_''"
  by (auto simp: is_digit_def)

lemma dec_digits_all: "list_all is_digit (dec_digits n)"
  by (induction n rule: dec_digits.induct) (subst dec_digits.simps, simp add: is_digit_digit_char)

lemma dec_digits_nonempty: "dec_digits n \<noteq> []"
  by (subst dec_digits.simps) simp

lemma dec_digits_value: "foldl (\<lambda>a c. 10 * a + digit_val c) 0 (dec_digits n) = n"
  by (induction n rule: dec_digits.induct) (subst dec_digits.simps, simp add: digit_val_digit_char)

lemma parse_digits_all:
  "list_all is_digit ds \<Longrightarrow> parse_digits ds acc = Some (foldl (\<lambda>a c. 10 * a + digit_val c) acc ds)"
  by (induction ds acc rule: parse_digits.induct) simp_all

lemma dec_digits_filter: "filter is_digit (dec_digits n) = dec_digits n"
  using dec_digits_all [of n] by (simp add: list_all_iff)

lemma dec_digits_length: "length (dec_digits n) \<le> n + 1"
proof (induction n rule: dec_digits.induct)
  case (1 n)
  show ?case
  proof (cases "n < 10")
    case True
    then show ?thesis by (subst dec_digits.simps) simp
  next
    case False
    then have "length (dec_digits (n div 10)) \<le> n div 10 + 1" by (rule 1)
    then show ?thesis using False by (subst dec_digits.simps) simp
  qed
qed

lemma parse_unsigned_dec:
  "parse_unsigned (dec_digits n) = (if length (dec_digits n) \<le> max_str_digits then Some n else None)"
proof -
  obtain c cs where e: "dec_digits n = c # cs"
    using dec_digits_nonempty [of n] by (cases "dec_digits n") auto
  have a: "list_all is_digit (c # cs)" using dec_digits_all [of n] e by simp
  have f: "filter is_digit (c # cs) = c # cs" using dec_digits_filter [of n] e by simp
  have "parse_digits (c # cs) 0 = Some n"
    using parse_digits_all [OF a, of 0] dec_digits_value [of n] e by simp
  then show ?thesis using a f unfolding parse_unsigned_def e by simp
qed

lemma dropWhile_id: "xs \<noteq> [] \<Longrightarrow> \<not> P (hd xs) \<Longrightarrow> dropWhile P xs = xs"
  by (cases xs) auto

lemma strip_id: "xs \<noteq> [] \<Longrightarrow> \<not> is_space (hd xs) \<Longrightarrow> \<not> is_space (last xs) \<Longrightarrow> strip xs = xs"
  by (simp add: strip_def dropWhile_id hd_rev)

lemma minus_not_space: "\<not> is_space CHR ''-''"
  by (simp add: is_space_def)

lemma int_of_str_str_of_int:
  "int_of_str (str_of_int i) =
     (if length (dec_digits (nat \<bar>i\<bar>)) \<le> max_str_digits then Some i else None)"
proof (cases "i < 0")
  case True
  let ?ds = "dec_digits (nat (- i))"
  have l: "is_digit (last ?ds)"
    using dec_digits_all [of "nat (- i)"] dec_digits_nonempty [of "nat (- i)"]
    by (simp add: list_all_iff)
  have "strip (CHR ''-'' # ?ds) = CHR ''-'' # ?ds"
    using l dec_digits_nonempty [of "nat (- i)"]
    by (intro strip_id) (simp_all add: not_space_digit minus_not_space)
  moreover have "\<bar>i\<bar> = - i" using True by simp
  ultimately show ?thesis using True by (simp add: int_of_str_def str_of_int_def parse_unsigned_dec)
next
  case False
  let ?ds = "dec_digits (nat i)"
  obtain c cs where e: "?ds = c # cs"
    using dec_digits_nonempty [of "nat i"] by (cases ?ds) auto
  have a: "list_all is_digit (c # cs)" using dec_digits_all [of "nat i"] e by simp
  then have l: "is_digit (last (c # cs))" by (simp add: list_all_iff)
  have "strip (c # cs) = c # cs"
    using a l by (intro strip_id) (simp_all add: not_space_digit)
  moreover have "parse_unsigned (c # cs) =
      (if length (c # cs) \<le> max_str_digits then Some (nat i) else None)"
    using parse_unsigned_dec [of "nat i"] e by simp
  moreover have "\<bar>i\<bar> = i" using False by simp
  ultimately show ?thesis
    using False a digit_not_sign [of c] by (simp add: int_of_str_def str_of_int_def e)
qed

lemma small_printable: "\<bar>t\<bar> \<le> 1127 \<Longrightarrow> length (dec_digits (nat \<bar>t\<bar>)) \<le> max_str_digits"
  using dec_digits_length [of "nat \<bar>t\<bar>"] by (simp add: max_str_digits_def)

lemma mask_bit_iff: "mask_bit m k = bit m k"
  by (simp add: mask_bit_def bit_iff_and_push_bit_not_eq_0)

lemma add_prn_eq:
  "add_prn parsed j S = S \<union> {p. 0 < p \<and> parsed (prn_field j) = Some (PInt p)}"
  by (auto simp: add_prn_def hasattr_def getattr_def split: option.splits pyval.splits)

lemma fold_add_prn:
  "fold (add_prn parsed) js S =
     S \<union> {p. 0 < p \<and> (\<exists>i \<in> set js. parsed (prn_field i) = Some (PInt p))}"
proof (induction js arbitrary: S)
  case Nil
  show ?case by simp
next
  case (Cons j js)
  have "fold (add_prn parsed) (j # js) S = fold (add_prn parsed) js (add_prn parsed j S)"
    by simp
  also have "\<dots> = add_prn parsed j S \<union>
      {p. 0 < p \<and> (\<exists>i \<in> set js. parsed (prn_field i) = Some (PInt p))}"
    by (rule Cons.IH)
  also have "\<dots> = S \<union> {p. 0 < p \<and> (\<exists>i \<in> set (j # js). parsed (prn_field i) = Some (PInt p))}"
    unfolding add_prn_eq by auto
  finally show ?case .
qed

lemma add_mask_prn_eq:
  "add_mask_prn m j S = S \<union> {i. i = j \<and> bit m (nat (i - 1))}"
  by (auto simp: add_mask_prn_def mask_bit_iff)

lemma fold_add_mask_prn:
  "fold (add_mask_prn m) js S = S \<union> {i \<in> set js. bit m (nat (i - 1))}"
proof (induction js arbitrary: S)
  case Nil
  show ?case by simp
next
  case (Cons j js)
  have "fold (add_mask_prn m) (j # js) S = fold (add_mask_prn m) js (add_mask_prn m j S)"
    by simp
  also have "\<dots> = add_mask_prn m j S \<union> {i \<in> set js. bit m (nat (i - 1))}"
    by (rule Cons.IH)
  also have "\<dots> = S \<union> {i \<in> set (j # js). bit m (nat (i - 1))}"
    unfolding add_mask_prn_eq by auto
  finally show ?case .
qed

lemma dom_empty_sets: "dom (empty_sets :: string \<rightharpoonup> 'a set) = constellations"
  by (auto simp: empty_sets_def constellations_def dom_map_of_conv_image_fst)

lemma empty_sets_empty: "(empty_sets :: string \<rightharpoonup> 'a set) k = Some S \<Longrightarrow> S = {}"
  by (auto simp: empty_sets_def split: if_splits)

lemma constellation_of_range:
  assumes "1071 \<le> t" "t \<le> 1127"
  shows "\<exists>cn names. constellation_map ((t - 1071) div 10) = Some cn \<and> cn \<noteq> [] \<and>
           cn \<in> constellations \<and> signal_map cn = Some names"
proof -
  have "(t - 1071) div 10 = 0 \<or> (t - 1071) div 10 = 1 \<or> (t - 1071) div 10 = 2 \<or>
        (t - 1071) div 10 = 3 \<or> (t - 1071) div 10 = 4 \<or> (t - 1071) div 10 = 5"
    using assms by presburger
  then show ?thesis
    by (elim disjE) (simp_all add: constellation_map_def constellations_def signal_map_def)
qed

lemma int_attr_cases:
  "int_attr parsed name \<Longrightarrow> \<exists>n. getattr parsed name (PInt 0) = PInt n"
  by (auto simp: int_attr_def getattr_def split: option.splits pyval.splits)

lemma msm_sets_eq:
  assumes "getattr parsed ''NSat'' (PInt 0) = PInt n" and "int_attr parsed ''NSig''"
  shows "\<exists>sigs. msm_sets parsed cn =
           Inr (let P = {p. 0 < p \<and> (\<exists>i. 1 \<le> i \<and> i \<le> n \<and> parsed (prn_field i) = Some (PInt p))}
                in if P \<noteq> {} then P
                   else (case getattr parsed ''DF394'' PNone of
                           PInt m \<Rightarrow> if 0 < m then {i. 1 \<le> i \<and> i \<le> 64 \<and> bit m (nat (i - 1))} else {}
                         | _ \<Rightarrow> {}),
                sigs)"
proof -
  obtain k where k: "getattr parsed ''NSig'' (PInt 0) = PInt k"
    using int_attr_cases [OF assms(2)] by blast
  let ?P = "{p. 0 < p \<and> (\<exists>i. 1 \<le> i \<and> i \<le> n \<and> parsed (prn_field i) = Some (PInt p))}"
  have P: "(if 0 < n then fold (add_prn parsed) [1..n] {} else {}) = ?P"
    by (auto simp: fold_add_prn)
  have M: "fold (add_mask_prn m) [1..64] S = S \<union> {i. 1 \<le> i \<and> i \<le> 64 \<and> bit m (nat (i - 1))}" for m S
    unfolding fold_add_mask_prn by auto
  show ?thesis
  proof (cases "?P = {}")
    case True
    show ?thesis
      unfolding msm_sets_def assms(1) k Let_def py_gt0.simps sum.case pyval.case P True
      by (simp add: M split: pyval.splits)
  next
    case False
    show ?thesis
      unfolding msm_sets_def assms(1) k Let_def py_gt0.simps sum.case pyval.case P
      using False by (simp only: if_False if_True refl simp_thms prod.inject sum.inject)
  qed
qed

lemma identity_read:
  assumes "parsed ''identity'' = Some (PInt t) \<or> parsed ''identity'' = Some (PStr (str_of_int t))"
    and "length (dec_digits (nat \<bar>t\<bar>)) \<le> max_str_digits"
  shows "\<exists>s. py_str (getattr parsed ''identity'' (PStr [])) = Inr s \<and> int_of_str s = Some t"
  using assms by (auto simp: getattr_def int_of_str_str_of_int)

lemma identity_unread:
  assumes "parsed ''identity'' = Some (PInt t) \<or> parsed ''identity'' = Some (PStr (str_of_int t))"
    and "max_str_digits < length (dec_digits (nat \<bar>t\<bar>))"
  shows "\<not> msm_identity parsed"
  using assms by (auto simp: msm_identity_def getattr_def int_of_str_str_of_int)

lemma example_1074:
  "(case extract_satellite_info frame_1074 of Inr (sats, sigs) \<Rightarrow> sats ''GPS'' | Inl e \<Rightarrow> None) =
     Some {4, 9, 17}"
  by code_simp

lemma example_1084:
  "(case extract_satellite_info frame_1084 of Inr (sats, sigs) \<Rightarrow> sats ''GLONASS'' | Inl e \<Rightarrow> None) =
     Some {1, 3}"
  by code_simp

text \<open>
  Claim C4. For a frame whose identity is the integer \<open>t\<close> (or its decimal string) with
  1071 \<le> t \<le> 1127 and whose satellite count is the integer \<open>n\<close>, the extractor files the
  satellites under the constellation that \<^verbatim>\<open>constellation_map\<close> gives for
  \<open>(t - 1071) div 10\<close> (0 GPS, 1 GLONASS, 2 Galileo, 3 SBAS, 4 QZSS, 5 BeiDou). The set
  is the positive integer values of the fields PRN_01 .. PRN_n; only when that set is
  empty it is the set of the \<open>i\<close> from 1 to 64 with bit \<open>i - 1\<close> of a positive \<^verbatim>\<open>DF394\<close>
  set. Type 1074 with count 3 and fields 4, 9, 17 gives GPS {4, 9, 17}; type 1084 with no
  satellite field and mask 0b101 gives GLONASS {1, 3}.
\<close>

theorem msm_extraction:
  assumes "parsed ''identity'' = Some (PInt t) \<or> parsed ''identity'' = Some (PStr (str_of_int t))"
    and "1071 \<le> t" and "t \<le> 1127"
    and "getattr parsed ''NSat'' (PInt 0) = PInt n"
    and "int_attr parsed ''NSig''"
  shows "(\<exists>cn sigs.
            constellation_map ((t - 1071) div 10) = Some cn \<and>
            extract_satellite_info parsed =
              Inr (empty_sets(cn \<mapsto>
                     (let P = {p. 0 < p \<and> (\<exists>i. 1 \<le> i \<and> i \<le> n \<and> parsed (prn_field i) = Some (PInt p))}
                      in if P \<noteq> {} then P
                         else (case getattr parsed ''DF394'' PNone of
                                 PInt m \<Rightarrow> if 0 < m then {i. 1 \<le> i \<and> i \<le> 64 \<and> bit m (nat (i - 1))} else {}
                               | _ \<Rightarrow> {}))),
                   empty_sets(cn \<mapsto> sigs)))
       \<and> constellation_map 0 = Some ''GPS'' \<and> constellation_map 1 = Some ''GLONASS''
       \<and> constellation_map 2 = Some ''Galileo'' \<and> constellation_map 3 = Some ''SBAS''
       \<and> constellation_map 4 = Some ''QZSS'' \<and> constellation_map 5 = Some ''BeiDou''
       \<and> (case extract_satellite_info frame_1074 of Inr (sats, sigs) \<Rightarrow> sats ''GPS'' | Inl e \<Rightarrow> None) =
           Some {4, 9, 17}
       \<and> (case extract_satellite_info frame_1084 of Inr (sats, sigs) \<Rightarrow> sats ''GLONASS'' | Inl e \<Rightarrow> None) =
           Some {1, 3}"
proof -
  define S where "S =
     (let P = {p. 0 < p \<and> (\<exists>i. 1 \<le> i \<and> i \<le> n \<and> parsed (prn_field i) = Some (PInt p))}
      in if P \<noteq> {} then P
         else (case getattr parsed ''DF394'' PNone of
                 PInt m \<Rightarrow> if 0 < m then {i. 1 \<le> i \<and> i \<le> 64 \<and> bit m (nat (i - 1))} else {}
               | _ \<Rightarrow> {}))"
  obtain cn names where cn: "constellation_map ((t - 1071) div 10) = Some cn" "cn \<noteq> []"
    using constellation_of_range [OF assms(2,3)] by blast
  obtain sigs where m: "msm_sets parsed cn = Inr (S, sigs)"
    using msm_sets_eq [OF assms(4,5), of cn] unfolding S_def by blast
  have "length (dec_digits (nat \<bar>t\<bar>)) \<le> max_str_digits"
    using assms(2,3) by (intro small_printable) simp
  then obtain s where i: "py_str (getattr parsed ''identity'' (PStr [])) = Inr s" "int_of_str s = Some t"
    using identity_read [of parsed t] assms(1) by blast
  have e: "extract_satellite_info parsed = Inr (empty_sets(cn \<mapsto> S), empty_sets(cn \<mapsto> sigs))"
    using assms(2,3) cn by (simp add: extract_satellite_info_def Let_def i m)
  have t: "constellation_map 0 = Some ''GPS''" "constellation_map 1 = Some ''GLONASS''"
    "constellation_map 2 = Some ''Galileo''" "constellation_map 3 = Some ''SBAS''"
    "constellation_map 4 = Some ''QZSS''" "constellation_map 5 = Some ''BeiDou''"
    by (simp_all add: constellation_map_def)
  from cn(1) e have "\<exists>cn sigs.
            constellation_map ((t - 1071) div 10) = Some cn \<and>
            extract_satellite_info parsed = Inr (empty_sets(cn \<mapsto> S), empty_sets(cn \<mapsto> sigs))"
    by blast
  with t example_1074 example_1084 show ?thesis unfolding S_def by (intro conjI)
qed

lemma str_1074: "str_of_int 1074 = ''1074''"
  by code_simp

theorem msm_extraction_witness:
  "frame_1074 ''identity'' = Some (PStr (str_of_int 1074))
   \<and> getattr frame_1074 ''NSat'' (PInt 0) = PInt 3
   \<and> int_attr frame_1074 ''NSig''
   \<and> (\<exists>cn S sigs. constellation_map ((1074 - 1071) div 10) = Some cn \<and>
         extract_satellite_info frame_1074 = Inr (empty_sets(cn \<mapsto> S), empty_sets(cn \<mapsto> sigs)))"
proof -
  have a: "frame_1074 ''identity'' = Some (PInt 1074) \<or>
           frame_1074 ''identity'' = Some (PStr (str_of_int 1074))"
    by (simp add: frame_1074_def str_1074)
  have b: "getattr frame_1074 ''NSat'' (PInt 0) = PInt 3"
    by (simp add: frame_1074_def getattr_def)
  have c: "int_attr frame_1074 ''NSig''"
    by (simp add: frame_1074_def int_attr_def)
  have d: "(1071::int) \<le> 1074" "(1074::int) \<le> 1127" by simp_all
  from msm_extraction [OF a d b c]
  have "\<exists>cn S sigs. constellation_map ((1074 - 1071) div 10) = Some cn \<and>
         extract_satellite_info frame_1074 = Inr (empty_sets(cn \<mapsto> S), empty_sets(cn \<mapsto> sigs))"
    by blast
  moreover have "frame_1074 ''identity'' = Some (PStr (str_of_int 1074))"
    by (simp add: frame_1074_def str_1074)
  ultimately show ?thesis using b c by blast
qed

lemma msm_sets_positive:
  assumes "msm_sets parsed cn = Inr (S, sigs)" and "p \<in> S"
  shows "0 < p"
  using assms
  by (auto simp: msm_sets_def Let_def fold_add_prn fold_add_mask_prn
           split: sum.splits pyval.splits if_splits)

lemma msm_sets_total:
  assumes "int_attr parsed ''NSat''" and "int_attr parsed ''NSig''"
  shows "\<exists>S sigs. msm_sets parsed cn = Inr (S, sigs)"
proof -
  obtain n where "getattr parsed ''NSat'' (PInt 0) = PInt n"
    using int_attr_cases [OF assms(1)] by blast
  from msm_sets_eq [OF this assms(2), of cn] show ?thesis by blast
qed

lemma py_str_error: "py_str v = Inl e \<Longrightarrow> e = ValueError"
  by (cases v) (auto split: if_splits)

lemma extract_str_raises:
  "isl (py_str (getattr parsed ''identity'' (PStr []))) \<Longrightarrow>
     extract_satellite_info parsed = Inl ValueError"
  by (cases "py_str (getattr parsed ''identity'' (PStr []))")
     (auto simp: extract_satellite_info_def Let_def dest: py_str_error)

lemma dec_digits_long: "10 ^ k \<le> n \<Longrightarrow> k < length (dec_digits n)"
proof (induction k arbitrary: n)
  case 0
  show ?case by (subst dec_digits.simps) simp
next
  case (Suc k)
  have "(1::nat) \<le> 10 ^ k" by simp
  then have "(10::nat) \<le> 10 * 10 ^ k" by simp
  then have n: "10 \<le> n" using Suc.prems by (simp only: power_Suc)
  have "10 ^ k \<le> n div 10" using Suc.prems by simp
  then have "k < length (dec_digits (n div 10))" by (rule Suc.IH)
  then show ?case using n by (subst dec_digits.simps) simp
qed

lemma py_str_huge: "py_str (PInt (10 ^ 4300)) = Inl ValueError"
proof -
  have a: "nat \<bar>(10::int) ^ 4300\<bar> = 10 ^ 4300"
  proof -
    have "(0::int) \<le> 10 ^ 4300" by (rule zero_le_power) simp
    then have "\<bar>(10::int) ^ 4300\<bar> = 10 ^ 4300" by (rule abs_of_nonneg)
    moreover have "nat ((10::int) ^ 4300) = nat 10 ^ 4300" by (rule nat_power_eq) simp
    moreover have "nat (10::int) = 10" by simp
    ultimately show ?thesis by (simp only:)
  qed
  have "4300 < length (dec_digits (10 ^ 4300))" by (rule dec_digits_long) (rule order_refl)
  then show ?thesis by (simp only: py_str.simps a max_str_digits_def if_True)
qed

lemma extract_not_msm:
  "\<not> isl (py_str (getattr parsed ''identity'' (PStr []))) \<Longrightarrow> \<not> msm_identity parsed \<Longrightarrow>
     extract_satellite_info parsed = Inr (empty_sets, empty_sets)"
  by (cases "py_str (getattr parsed ''identity'' (PStr []))")
     (auto simp: msm_identity_def extract_satellite_info_def Let_def split: option.splits)

lemma extract_msm:
  assumes "msm_identity parsed"
  shows "\<exists>cn. cn \<in> constellations \<and>
           extract_satellite_info parsed =
             (case msm_sets parsed cn of
                Inl e \<Rightarrow> Inl e
              | Inr (sats, sigs) \<Rightarrow> Inr (empty_sets(cn \<mapsto> sats), empty_sets(cn \<mapsto> sigs)))"
proof -
  obtain s t where t: "py_str (getattr parsed ''identity'' (PStr [])) = Inr s"
    "int_of_str s = Some t" "1071 \<le> t" "t \<le> 1127"
    using assms by (auto simp: msm_identity_def split: sum.splits option.splits)
  obtain cn names where cn: "constellation_map ((t - 1071) div 10) = Some cn" "cn \<noteq> []"
    "cn \<in> constellations"
    using constellation_of_range [OF t(3,4)] by blast
  have "extract_satellite_info parsed =
             (case msm_sets parsed cn of
                Inl e \<Rightarrow> Inl e
              | Inr (sats, sigs) \<Rightarrow> Inr (empty_sets(cn \<mapsto> sats), empty_sets(cn \<mapsto> sigs)))"
    using t cn by (simp add: extract_satellite_info_def Let_def)
  with cn(3) show ?thesis by blast
qed

lemma msm_identity_str: "msm_identity parsed \<Longrightarrow> \<not> isl (py_str (getattr parsed ''identity'' (PStr [])))"
  by (auto simp: msm_identity_def split: sum.splits)

lemma not_int_attr:
  "\<not> int_attr parsed name \<Longrightarrow> py_gt0 (getattr parsed name (PInt 0)) = Inl TypeError"
  by (auto simp: int_attr_def getattr_def split: option.splits pyval.splits)

lemma msm_sets_raises:
  assumes "\<not> (int_attr parsed ''NSat'' \<and> int_attr parsed ''NSig'')"
  shows "msm_sets parsed cn = Inl TypeError"
proof (cases "int_attr parsed ''NSat''")
  case False
  then show ?thesis by (simp add: msm_sets_def Let_def not_int_attr)
next
  case True
  then obtain n where n: "getattr parsed ''NSat'' (PInt 0) = PInt n"
    using int_attr_cases by blast
  have "\<not> int_attr parsed ''NSig''" using assms True by simp
  then show ?thesis by (simp add: msm_sets_def Let_def n not_int_attr)
qed

lemma msm_identity_literal:
  assumes "parsed ''identity'' = Some (PInt t) \<or> parsed ''identity'' = Some (PStr (str_of_int t))"
  shows "msm_identity parsed = (1071 \<le> t \<and> t \<le> 1127)"
proof (cases "length (dec_digits (nat \<bar>t\<bar>)) \<le> max_str_digits")
  case True
  obtain s where "py_str (getattr parsed ''identity'' (PStr [])) = Inr s" "int_of_str s = Some t"
    using identity_read [of parsed t] assms True by blast
  then show ?thesis by (simp add: msm_identity_def)
next
  case False
  then have "\<not> msm_identity parsed" using identity_unread [of parsed t] assms by simp
  moreover have "\<not> (1071 \<le> t \<and> t \<le> 1127)"
    using False small_printable [of t] by auto
  ultimately show ?thesis by simp
qed

lemma msm_identity_absent:
  "parsed ''identity'' = None \<or> parsed ''identity'' = Some PNone \<Longrightarrow> \<not> msm_identity parsed"
  by (auto simp: msm_identity_def getattr_def int_of_str_def strip_def parse_unsigned_def is_space_def
        is_digit_def)

lemma extraction_typed_sets:
  assumes "extractable parsed"
  shows "\<exists>sats sigs.
           extract_satellite_info parsed = Inr (sats, sigs)
         \<and> dom sats = constellations \<and> dom sigs = constellations
         \<and> (\<not> msm_identity parsed \<longrightarrow>
              (\<forall>k S. sats k = Some S \<longrightarrow> S = {}) \<and> (\<forall>k S. sigs k = Some S \<longrightarrow> S = {}))
         \<and> (\<forall>k S p. sats k = Some S \<longrightarrow> p \<in> S \<longrightarrow> 0 < p)"
proof (cases "msm_identity parsed")
  case False
  have "\<not> isl (py_str (getattr parsed ''identity'' (PStr [])))"
    using assms by (simp add: extractable_def)
  then have e: "extract_satellite_info parsed = Inr (empty_sets, empty_sets)"
    using False by (rule extract_not_msm)
  show ?thesis
    unfolding e using False
    by (intro exI [of _ empty_sets] conjI refl dom_empty_sets) (auto dest: empty_sets_empty)
next
  case True
  have ints: "int_attr parsed ''NSat''" "int_attr parsed ''NSig''"
    using assms True by (simp_all add: extractable_def)
  obtain cn where cn: "cn \<in> constellations"
    and e: "extract_satellite_info parsed =
             (case msm_sets parsed cn of
                Inl e \<Rightarrow> Inl e
              | Inr (sats, sigs) \<Rightarrow> Inr (empty_sets(cn \<mapsto> sats), empty_sets(cn \<mapsto> sigs)))"
    using extract_msm [OF True] by blast
  obtain S sigs where m: "msm_sets parsed cn = Inr (S, sigs)"
    using msm_sets_total [OF ints, of cn] by blast
  have pos: "\<forall>k S' p. (empty_sets(cn \<mapsto> S)) k = Some S' \<longrightarrow> p \<in> S' \<longrightarrow> 0 < p"
    using msm_sets_positive [OF m] by (auto dest: empty_sets_empty split: if_splits)
  show ?thesis
    unfolding e m using True pos
    by (intro exI [of _ "empty_sets(cn \<mapsto> S)"] exI [of _ "empty_sets(cn \<mapsto> sigs)"])
       (simp add: dom_empty_sets insert_absorb [OF cn])
qed

lemma extraction_raises:
  assumes "\<not> extractable parsed"
  shows "extract_satellite_info parsed =
           Inl (if isl (py_str (getattr parsed ''identity'' (PStr []))) then ValueError
                else TypeError)"
proof (cases "isl (py_str (getattr parsed ''identity'' (PStr [])))")
  case True
  then show ?thesis by (simp add: extract_str_raises)
next
  case False
  then have m: "msm_identity parsed" and n: "\<not> (int_attr parsed ''NSat'' \<and> int_attr parsed ''NSig'')"
    using assms by (auto simp: extractable_def)
  obtain cn where "extract_satellite_info parsed =
             (case msm_sets parsed cn of
                Inl e \<Rightarrow> Inl e
              | Inr (sats, sigs) \<Rightarrow> Inr (empty_sets(cn \<mapsto> sats), empty_sets(cn \<mapsto> sigs)))"
    using extract_msm [OF m] by blast
  then show ?thesis using False by (simp add: msm_sets_raises [OF n])
qed

text \<open>
  Claim C10, as amended. Of the objects whose attributes are integers, strings or
  \<^verbatim>\<open>None\<close>, the extractor raises on exactly two kinds: those
  whose identity is an integer of more than 4300 digits (\<^verbatim>\<open>str\<close> raises \<^verbatim>\<open>ValueError\<close>
  before the \<^verbatim>\<open>try\<close>), and those whose identity reads as an integer from 1071 to 1127
  while \<^verbatim>\<open>NSat\<close> or \<^verbatim>\<open>NSig\<close> is present and not an integer (\<^verbatim>\<open>TypeError\<close>). On every other
  object it returns two dictionaries with exactly the six constellation keys; all their
  sets are empty when the identity does not read as an integer from 1071 to 1127 (for an
  identity that is an integer or its decimal string: when that integer is outside the
  range; and always when there is no identity); and every member of a satellite set is a
  positive integer.
\<close>

theorem extraction_typed_total:
  "((\<exists>sats sigs. extract_satellite_info parsed = Inr (sats, sigs)) = extractable parsed)
   \<and> (extractable parsed \<longrightarrow>
        (\<exists>sats sigs.
           extract_satellite_info parsed = Inr (sats, sigs)
         \<and> dom sats = constellations \<and> dom sigs = constellations
         \<and> (\<not> msm_identity parsed \<longrightarrow>
              (\<forall>k S. sats k = Some S \<longrightarrow> S = {}) \<and> (\<forall>k S. sigs k = Some S \<longrightarrow> S = {}))
         \<and> (\<forall>k S p. sats k = Some S \<longrightarrow> p \<in> S \<longrightarrow> 0 < p)))
   \<and> (\<not> extractable parsed \<longrightarrow>
        extract_satellite_info parsed =
          Inl (if isl (py_str (getattr parsed ''identity'' (PStr []))) then ValueError
               else TypeError))
   \<and> (\<forall>t. parsed ''identity'' = Some (PInt t) \<or> parsed ''identity'' = Some (PStr (str_of_int t))
          \<longrightarrow> msm_identity parsed = (1071 \<le> t \<and> t \<le> 1127))
   \<and> (parsed ''identity'' = None \<or> parsed ''identity'' = Some PNone \<longrightarrow> \<not> msm_identity parsed)"
proof -
  have 1: "(\<exists>sats sigs. extract_satellite_info parsed = Inr (sats, sigs)) = extractable parsed"
  proof (cases "extractable parsed")
    case True
    then show ?thesis using extraction_typed_sets [OF True] by blast
  next
    case False
    then show ?thesis using extraction_raises [OF False] by auto
  qed
  show ?thesis
    using 1 extraction_typed_sets [of parsed] extraction_raises [of parsed]
      msm_identity_literal [of parsed] msm_identity_absent [of parsed]
    by (intro conjI allI impI)
qed

theorem extraction_typed_total_witness:
  "extractable frame_1084 \<and> extractable frame_1005 \<and> \<not> msm_identity frame_1005
   \<and> (\<exists>sats sigs. extract_satellite_info frame_1084 = Inr (sats, sigs) \<and> dom sats = constellations)
   \<and> (\<exists>sats sigs. extract_satellite_info frame_1005 = Inr (sats, sigs) \<and> dom sats = constellations
         \<and> sats ''GPS'' = Some {})
   \<and> \<not> extractable frame_huge \<and> extract_satellite_info frame_huge = Inl ValueError"
proof -
  have a: "extractable frame_1084"
    unfolding extractable_def msm_identity_def int_attr_def frame_1084_def by code_simp
  have b: "extractable frame_1005"
    unfolding extractable_def msm_identity_def int_attr_def frame_1005_def by code_simp
  have n: "\<not> msm_identity frame_1005"
    unfolding msm_identity_def frame_1005_def by code_simp
  from extraction_typed_total [of frame_1084] a
  have c: "\<exists>sats sigs. extract_satellite_info frame_1084 = Inr (sats, sigs) \<and> dom sats = constellations"
    by blast
  from extraction_typed_total [of frame_1005] b n
  obtain sats sigs where d: "extract_satellite_info frame_1005 = Inr (sats, sigs)"
    and e: "dom sats = constellations" and f: "\<forall>k S. sats k = Some S \<longrightarrow> S = {}"
    by blast
  have "''GPS'' \<in> dom sats" unfolding e by (simp add: constellations_def)
  then obtain S where "sats ''GPS'' = Some S" by blast
  with f have g: "sats ''GPS'' = Some {}" by blast
  have "isl (py_str (getattr frame_huge ''identity'' (PStr [])))"
    by (simp only: getattr_def frame_huge_def fun_upd_same option.case py_str_huge sum.disc)
  then have h: "\<not> extractable frame_huge"
    and i: "(if isl (py_str (getattr frame_huge ''identity'' (PStr []))) then ValueError
             else TypeError) = ValueError"
    by (simp_all only: extractable_def simp_thms if_True)
  from extraction_typed_total [of frame_huge] h
  have j: "extract_satellite_info frame_huge = Inl ValueError" unfolding i by blast
  from a b n c d e g h j show ?thesis by blast
qed

text \<open>
  Claim C10 as stated fails: on an object with an MSM identity whose \<^verbatim>\<open>NSat\<close> is \<^verbatim>\<open>None\<close>
  the comparison \<^verbatim>\<open>nsat > 0\<close> raises \<^verbatim>\<open>TypeError\<close>, which the function does not catch.
\<close>

theorem extraction_raises_counterexample:
  "(case extract_satellite_info frame_untyped of Inl e \<Rightarrow> e = TypeError | Inr r \<Rightarrow> False)"
  by code_simp

section \<open>Properties of decoding, statistics and the buffer\<close>

text \<open>
  Claim C2: the count of an identity is the number of frames of that identity received so
  far, each counted once, also when a pass ends early with an error. The code counts a
  frame again: the reader yields one frame and then raises, the handler's \<^verbatim>\<open>except\<close> skips
  the trim, the buffer keeps the bytes of the counted frame, and the next pass over the
  same bytes counts it a second time.
\<close>

theorem error_pass_recounts:
  "count_of (on_data reader_failing clock_0 [] ''A'' app_A) ''A'' (PStr ''1074'') = Some 1
   \<and> map_option buffer (clients (on_data reader_failing clock_0 [] ''A'' app_A) ''A'') =
       map_option buffer (clients app_A ''A'')
   \<and> count_of (on_data reader_failing clock_0 [] ''A'' (on_data reader_failing clock_0 [] ''A'' app_A))
        ''A'' (PStr ''1074'') = Some 2"
  by code_simp

text \<open>
  Claim C6 as stated fails: after \<^verbatim>\<open>remove_caster_by_name\<close> the satellite set and the
  message count of the removed caster are still stored, and a caster started again under
  that name finds them; and \<^verbatim>\<open>start_connection\<close> for a caster whose client is not
  running gives a new client but keeps the count and the set.
\<close>

theorem remove_keeps_stats_counterexample:
  "sats_of (on_data reader_whole clock_0 [] ''A'' app_A) ''A'' ''GPS'' = Some {4, 9, 17}
   \<and> sats_of (remove_caster_by_name True ''A'' (on_data reader_whole clock_0 [] ''A'' app_A)) ''A'' ''GPS'' =
       Some {4, 9, 17}
   \<and> count_of (remove_caster_by_name True ''A'' (on_data reader_whole clock_0 [] ''A'' app_A)) ''A''
        (PStr ''1074'') = Some 1
   \<and> sats_of (start_connection ''2024-01-01 00:10:00'' caster_A
                (remove_caster_by_name True ''A'' (on_data reader_whole clock_0 [] ''A'' app_A)))
        ''A'' ''GPS'' = Some {4, 9, 17}
   \<and> map_option running (clients (on_data reader_whole clock_0 [] ''A'' app_A) ''A'') = Some False
   \<and> clients (start_connection ''2024-01-01 00:10:00'' caster_A
                (on_data reader_whole clock_0 [] ''A'' app_A)) ''A'' = Some (new_client caster_A)
   \<and> count_of (start_connection ''2024-01-01 00:10:00'' caster_A
                (on_data reader_whole clock_0 [] ''A'' app_A)) ''A'' (PStr ''1074'') = Some 1
   \<and> sats_of (start_connection ''2024-01-01 00:10:00'' caster_A
                (on_data reader_whole clock_0 [] ''A'' app_A)) ''A'' ''GPS'' = Some {4, 9, 17}"
  by code_simp

lemma sets_grow_refl: "sets_grow a a"
  by (auto simp: sets_grow_def)

lemma sets_grow_trans:
  assumes "sets_grow a b" and "sets_grow b c"
  shows "sets_grow a c"
proof -
  have "\<exists>S''. sats_of c nm k = Some S'' \<and> S \<subseteq> S''" if h: "sats_of a nm k = Some S" for nm k S
  proof -
    obtain S' where 1: "sats_of b nm k = Some S'" "S \<subseteq> S'"
      using assms(1) h unfolding sets_grow_def by blast
    obtain S'' where 2: "sats_of c nm k = Some S''" "S' \<subseteq> S''"
      using assms(2) 1(1) unfolding sets_grow_def by blast
    from 1(2) 2 show ?thesis by blast
  qed
  moreover
  have "\<exists>S''. sigs_of c nm k = Some S'' \<and> S \<subseteq> S''" if h: "sigs_of a nm k = Some S" for nm k S
  proof -
    obtain S' where 1: "sigs_of b nm k = Some S'" "S \<subseteq> S'"
      using assms(1) h unfolding sets_grow_def by blast
    obtain S'' where 2: "sigs_of c nm k = Some S''" "S' \<subseteq> S''"
      using assms(2) 1(1) unfolding sets_grow_def by blast
    from 1(2) 2 show ?thesis by blast
  qed
  ultimately show ?thesis unfolding sets_grow_def by blast
qed

lemma sets_grow_same_stats:
  "satellite_stats a' = satellite_stats a \<Longrightarrow> signal_stats a' = signal_stats a \<Longrightarrow> sets_grow a a'"
  by (auto simp: sets_grow_def sats_of_def sigs_of_def)

lemma merge_sets_grows:
  "totals k = Some S \<Longrightarrow> \<exists>S'. merge_sets totals info k = Some S' \<and> S \<subseteq> S'"
  by (auto simp: merge_sets_def split: option.splits)

lemma merge_satellites_sats:
  assumes "sats_of a n k = Some S"
  shows "\<exists>S'. sats_of (merge_satellites nm sat_info sig_info a) n k = Some S' \<and> S \<subseteq> S'"
proof (cases "n = nm")
  case False
  then show ?thesis using assms by (simp add: sats_of_def merge_satellites_def Let_def)
next
  case True
  obtain d where d: "satellite_stats a nm = Some d" "d k = Some S"
    using assms True by (auto simp: sats_of_def split: option.splits)
  from merge_sets_grows [of d k S sat_info] d(2) show ?thesis
    using True d(1) by (simp add: sats_of_def merge_satellites_def Let_def)
qed

lemma merge_satellites_sigs:
  assumes "sigs_of a n k = Some S"
  shows "\<exists>S'. sigs_of (merge_satellites nm sat_info sig_info a) n k = Some S' \<and> S \<subseteq> S'"
proof (cases "n = nm")
  case False
  then show ?thesis using assms by (simp add: sigs_of_def merge_satellites_def Let_def)
next
  case True
  obtain d where d: "signal_stats a nm = Some d" "d k = Some S"
    using assms True by (auto simp: sigs_of_def split: option.splits)
  from merge_sets_grows [of d k S sig_info] d(2) show ?thesis
    using True d(1) by (simp add: sigs_of_def merge_satellites_def Let_def)
qed

lemma merge_satellites_grows: "sets_grow a (merge_satellites nm sat_info sig_info a)"
  unfolding sets_grow_def using merge_satellites_sats merge_satellites_sigs by blast

lemma count_message_grows: "sets_grow a (count_message nm now msg_type a)"
  by (rule sets_grow_same_stats) (simp_all add: count_message_def Let_def)

lemma process_frames_grows: "sets_grow a (fst (process_frames nm clock k fs a))"
proof (induction fs arbitrary: k a)
  case Nil
  show ?case by (simp add: sets_grow_refl)
next
  case (Cons parsed rest)
  show ?case
  proof (cases "truthy (getattr parsed ''identity'' PNone)")
    case False
    then show ?thesis using Cons.IH by (simp add: Let_def)
  next
    case True
    let ?a1 = "count_message nm (clock k) (getattr parsed ''identity'' PNone) a"
    show ?thesis
    proof (cases "extract_satellite_info parsed")
      case (Inl e)
      then show ?thesis using True by (simp add: Let_def count_message_grows)
    next
      case (Inr r)
      obtain sat_info sig_info where r: "r = (sat_info, sig_info)" by (cases r)
      have "sets_grow a (merge_satellites nm sat_info sig_info ?a1)"
        using sets_grow_trans [OF count_message_grows merge_satellites_grows] .
      from sets_grow_trans [OF this Cons.IH]
      show ?thesis using True Inr r by (simp add: Let_def)
    qed
  qed
qed

lemma on_data_shape:
  "\<exists>a1. on_data rtcm_reader clock between nm a =
           a1\<lparr>clients := clients (on_data rtcm_reader clock between nm a)\<rparr> \<and>
        (a1 = a \<or> (\<exists>c. clients a nm = Some c \<and> buffer c \<noteq> [] \<and>
            a1 = fst (process_frames nm clock 0 (frames (rtcm_reader (buffer c))) a)))"
proof (cases "clients a nm")
  case None
  then have "on_data rtcm_reader clock between nm a =
      a\<lparr>clients := clients (on_data rtcm_reader clock between nm a)\<rparr>"
    by (simp add: on_data_def)
  then show ?thesis by blast
next
  case (Some c)
  show ?thesis
  proof (cases "buffer c = []")
    case True
    then have "on_data rtcm_reader clock between nm a =
        a\<lparr>clients := clients (on_data rtcm_reader clock between nm a)\<rparr>"
      using Some by (simp add: on_data_def Let_def)
    then show ?thesis by blast
  next
    case False
    obtain a1 raised where p: "process_frames nm clock 0 (frames (rtcm_reader (buffer c))) a = (a1, raised)"
      by (cases "process_frames nm clock 0 (frames (rtcm_reader (buffer c))) a")
    have "on_data rtcm_reader clock between nm a =
        a1\<lparr>clients := clients (on_data rtcm_reader clock between nm a)\<rparr>"
      using Some False p
      by (cases "ending (rtcm_reader (buffer c))") (simp_all add: on_data_def Let_def)
    moreover have "a1 = fst (process_frames nm clock 0 (frames (rtcm_reader (buffer c))) a)"
      using p by simp
    ultimately show ?thesis using Some False by blast
  qed
qed

lemma on_data_grows: "sets_grow a (on_data rtcm_reader clock between nm a)"
proof -
  obtain a1 where s: "on_data rtcm_reader clock between nm a =
           a1\<lparr>clients := clients (on_data rtcm_reader clock between nm a)\<rparr>"
    and d: "a1 = a \<or> (\<exists>c. clients a nm = Some c \<and> buffer c \<noteq> [] \<and>
            a1 = fst (process_frames nm clock 0 (frames (rtcm_reader (buffer c))) a))"
    using on_data_shape [of rtcm_reader clock between nm a] by blast
  have "sets_grow a a1"
  proof (rule disjE [OF d])
    assume "a1 = a"
    then show ?thesis by (simp add: sets_grow_refl)
  next
    assume "\<exists>c. clients a nm = Some c \<and> buffer c \<noteq> [] \<and>
            a1 = fst (process_frames nm clock 0 (frames (rtcm_reader (buffer c))) a)"
    then show ?thesis using process_frames_grows by blast
  qed
  moreover have "sets_grow a1 (on_data rtcm_reader clock between nm a)"
    by (subst s, rule sets_grow_same_stats) simp_all
  ultimately show ?thesis by (rule sets_grow_trans)
qed

lemma on_data_client:
  assumes "clients a nm = Some c"
  shows "clients (on_data rtcm_reader clock between nm a) nm =
     Some (let later = fold net_append between c;
               k = (case ending (rtcm_reader (buffer c)) of
                      EndOfStream consumed \<Rightarrow>
                        if buffer c = [] \<or> snd (process_frames nm clock 0 (frames (rtcm_reader (buffer c))) a)
                        then 0 else consumed
                    | ReaderError \<Rightarrow> 0)
           in later\<lparr>buffer := drop k (buffer later)\<rparr>)"
proof (cases "buffer c = []")
  case True
  then show ?thesis using assms
    by (simp add: on_data_def Let_def split: reader_end.splits)
next
  case False
  obtain a1 raised where p: "process_frames nm clock 0 (frames (rtcm_reader (buffer c))) a = (a1, raised)"
    by (cases "process_frames nm clock 0 (frames (rtcm_reader (buffer c))) a")
  show ?thesis using assms False p
    by (cases "ending (rtcm_reader (buffer c))") (simp_all add: on_data_def Let_def)
qed

text \<open>
  Claim C3. A decode pass on a client's buffer, with the chunks \<open>between\<close> appended by the
  network thread after the snapshot and before the trim, leaves the buffer as the
  snapshot without its first \<open>k\<close> bytes followed by all those chunks, where \<open>k\<close> is
  the position \<^verbatim>\<open>consumed\<close> of a pass that ran to its end (and 0 for a pass that returned
  early or was left by an exception, which trims nothing). So no appended byte is lost,
  and when the buffer was all bytes appended so far without the first \<open>j\<close>, it is
  afterwards all bytes appended without the first \<open>j + k\<close>. The reader's position is
  taken to lie within the snapshot.
\<close>

theorem trim_keeps_appended:
  assumes "clients a nm = Some c" and "reader_within rtcm_reader (buffer c)"
  shows "\<exists>c' k. clients (on_data rtcm_reader clock between nm a) nm = Some c'
         \<and> k = (case ending (rtcm_reader (buffer c)) of
                  EndOfStream consumed \<Rightarrow>
                    if buffer c = [] \<or> snd (process_frames nm clock 0 (frames (rtcm_reader (buffer c))) a)
                    then 0 else consumed
                | ReaderError \<Rightarrow> 0)
         \<and> k \<le> length (buffer c)
         \<and> buffer c' = drop k (buffer c) @ concat between
         \<and> total_bytes c' = total_bytes c + sum_list (map (\<lambda>b. int (length b)) between)
         \<and> (\<forall>hist j. j \<le> length hist \<and> buffer c = drop j hist \<longrightarrow>
               buffer c' = drop (j + k) (hist @ concat between))"
proof -
  define k where "k = (case ending (rtcm_reader (buffer c)) of
                  EndOfStream consumed \<Rightarrow>
                    if buffer c = [] \<or> snd (process_frames nm clock 0 (frames (rtcm_reader (buffer c))) a)
                    then 0 else consumed
                | ReaderError \<Rightarrow> 0)"
  define c' where "c' = (fold net_append between c)\<lparr>buffer := drop k (buffer (fold net_append between c))\<rparr>"
  have 1: "clients (on_data rtcm_reader clock between nm a) nm = Some c'"
    unfolding c'_def k_def using on_data_client [OF assms(1)] by (simp add: Let_def)
  have 2: "k \<le> length (buffer c)"
    using assms(2) unfolding k_def reader_within_def by (simp split: reader_end.splits)
  have 3: "buffer c' = drop k (buffer c) @ concat between"
    using 2 by (simp add: c'_def fold_net_append_buffer)
  have 4: "total_bytes c' = total_bytes c + sum_list (map (\<lambda>b. int (length b)) between)"
    by (simp add: c'_def fold_net_append_total)
  have 5: "buffer c' = drop (j + k) (hist @ concat between)"
    if "j \<le> length hist \<and> buffer c = drop j hist" for hist j
  proof -
    have "j + k \<le> length hist" using that 2 by auto
    then have "drop (j + k) (hist @ concat between) = drop (j + k) hist @ concat between"
      by simp
    also have "drop (j + k) hist = drop k (buffer c)"
      using that by (simp add: add.commute)
    finally show ?thesis using 3 by simp
  qed
  from 1 2 3 4 5 show ?thesis unfolding k_def by blast
qed

theorem trim_keeps_appended_witness:
  "clients app_A ''A'' = Some (net_append ''frame-bytes'' (new_client caster_A))
   \<and> reader_within reader_whole (buffer (net_append ''frame-bytes'' (new_client caster_A)))
   \<and> map_option buffer (clients (on_data reader_whole clock_0 [''more'', ''bytes''] ''A'' app_A) ''A'') =
       Some ''morebytes''"
proof -
  have a: "clients app_A ''A'' = Some (net_append ''frame-bytes'' (new_client caster_A))"
    by (simp add: app_A_def)
  have b: "reader_within reader_whole (buffer (net_append ''frame-bytes'' (new_client caster_A)))"
    by (simp add: reader_within_def reader_whole_def)
  have p: "\<not> snd (process_frames ''A'' clock_0 0 [frame_1074] app_A)"
    by code_simp
  from trim_keeps_appended [OF a b, of clock_0 "[''more'', ''bytes'']"]
  obtain c' where "clients (on_data reader_whole clock_0 [''more'', ''bytes''] ''A'' app_A) ''A'' = Some c'"
    and "buffer c' = ''morebytes''"
    using p by (auto simp: reader_whole_def net_append_def new_client_def)
  then have "map_option buffer (clients (on_data reader_whole clock_0 [''more'', ''bytes''] ''A'' app_A) ''A'') =
       Some ''morebytes''" by simp
  with a b show ?thesis by blast
qed

lemma remove_leaves_stats:
  "satellite_stats (remove_caster_by_name confirmed nm a) = satellite_stats a"
  "signal_stats (remove_caster_by_name confirmed nm a) = signal_stats a"
  "rtcm_stats (remove_caster_by_name confirmed nm a) = rtcm_stats a"
  by (simp_all add: remove_caster_by_name_def)

lemma start_leaves_stats:
  "satellite_stats (start_connection now c a) = satellite_stats a"
  "signal_stats (start_connection now c a) = signal_stats a"
  "rtcm_stats (start_connection now c a) = rtcm_stats a"
  by (simp_all add: start_connection_def Let_def)

text \<open>
  Claim C6, as amended. A decode pass only adds to the stored satellite and signal sets
  (of every caster). \<^verbatim>\<open>remove_caster_by_name\<close>, once confirmed, takes the caster off the
  list and pops its client. \<^verbatim>\<open>show_edit_dialog\<close>, for a caster that has a client, drops
  the message counts stored under the old name. \<^verbatim>\<open>start_connection\<close> leaves the counts
  and the sets as they are and, when no client is running under the name, installs a new
  client: no byte received, an empty buffer, no reconnect attempt.
\<close>

theorem stats_lifecycle:
  "sets_grow a (on_data rtcm_reader clock between nm a)
   \<and> (confirmed \<longrightarrow>
        clients (remove_caster_by_name confirmed nm a) nm = None \<and>
        \<not> list_ex (\<lambda>c. cname c = nm) (casters (remove_caster_by_name confirmed nm a)))
   \<and> (find (\<lambda>c. cname c = old_name) (casters a) \<noteq> None \<and> clients a old_name \<noteq> None \<and>
       cname newdata \<noteq> [] \<and> host newdata \<noteq> [] \<and> mount newdata \<noteq> [] \<longrightarrow>
         rtcm_stats (show_edit_dialog (Some newdata) now old_name a) old_name = None)
   \<and> satellite_stats (start_connection now c a) = satellite_stats a
   \<and> signal_stats (start_connection now c a) = signal_stats a
   \<and> rtcm_stats (start_connection now c a) = rtcm_stats a
   \<and> (\<not> (case clients a (cname c) of Some client \<Rightarrow> running client | None \<Rightarrow> False) \<longrightarrow>
         clients (start_connection now c a) (cname c) = Some (new_client c))
   \<and> total_bytes (new_client c) = 0 \<and> buffer (new_client c) = []
   \<and> reconnect_attempts (new_client c) = 0"
proof -
  have r: "confirmed \<longrightarrow>
        clients (remove_caster_by_name confirmed nm a) nm = None \<and>
        \<not> list_ex (\<lambda>c. cname c = nm) (casters (remove_caster_by_name confirmed nm a))"
    by (simp add: remove_caster_by_name_def list_ex_iff)
  have s': "\<not> (case clients a (cname c) of Some client \<Rightarrow> running client | None \<Rightarrow> False) \<longrightarrow>
         clients (start_connection now c a) (cname c) = Some (new_client c)"
    by (simp add: start_connection_def Let_def)
  have e: "find (\<lambda>c. cname c = old_name) (casters a) \<noteq> None \<and> clients a old_name \<noteq> None \<and>
       cname newdata \<noteq> [] \<and> host newdata \<noteq> [] \<and> mount newdata \<noteq> [] \<longrightarrow>
         rtcm_stats (show_edit_dialog (Some newdata) now old_name a) old_name = None"
    by (auto simp: show_edit_dialog_def Let_def start_leaves_stats)
  have n: "total_bytes (new_client c) = 0" "buffer (new_client c) = []"
    "reconnect_attempts (new_client c) = 0"
    by (simp_all add: new_client_def)
  show ?thesis using on_data_grows r start_leaves_stats s' e n by (intro conjI)
qed

theorem stats_lifecycle_witness:
  "count_of app_seen ''A'' (PStr ''1074'') = Some 1
   \<and> count_of (show_edit_dialog (Some caster_B) ''2024-01-01 00:10:00'' ''A'' app_seen) ''A''
       (PStr ''1074'') = None
   \<and> clients (start_connection ''2024-01-01 00:10:00'' caster_A
                (remove_caster_by_name True ''A'' app_seen)) ''A'' = Some (new_client caster_A)"
proof -
  have 1: "count_of app_seen ''A'' (PStr ''1074'') = Some 1"
    unfolding app_seen_def by code_simp
  have h: "find (\<lambda>c. cname c = ''A'') (casters app_seen) \<noteq> None \<and> clients app_seen ''A'' \<noteq> None \<and>
       cname caster_B \<noteq> [] \<and> host caster_B \<noteq> [] \<and> mount caster_B \<noteq> []"
    unfolding app_seen_def by code_simp
  have g: "\<not> (case clients (remove_caster_by_name True ''A'' app_seen) (cname caster_A) of
               Some client \<Rightarrow> running client | None \<Rightarrow> False)"
    by (simp add: remove_caster_by_name_def caster_A_def)
  have n: "cname caster_A = ''A''" by (simp add: caster_A_def)
  note t1 = stats_lifecycle [of app_seen reader_whole clock_0 "[]" "''A''" True "''A''" caster_B
      "''2024-01-01 00:10:00''" caster_A]
  note t2 = stats_lifecycle [of "remove_caster_by_name True ''A'' app_seen" reader_whole clock_0 "[]"
      "''A''" True "''A''" caster_B "''2024-01-01 00:10:00''" caster_A]
  have 2: "rtcm_stats (show_edit_dialog (Some caster_B) ''2024-01-01 00:10:00'' ''A'' app_seen) ''A'' = None"
    using t1 h by blast
  have 3: "clients (start_connection ''2024-01-01 00:10:00'' caster_A
                (remove_caster_by_name True ''A'' app_seen)) ''A'' = Some (new_client caster_A)"
    using t2 g n by simp
  from 1 2 3 show ?thesis by (simp add: count_of_def)
qed

lemma counts_grow_refl: "counts_grow a a"
  by (simp add: counts_grow_def)

lemma counts_grow_trans:
  assumes "counts_grow a b" and "counts_grow b c"
  shows "counts_grow a c"
  unfolding counts_grow_def
proof (intro allI impI)
  fix nm t n
  assume h: "count_of a nm t = Some n"
  obtain n' where 1: "count_of b nm t = Some n'" "n \<le> n'"
    using assms(1) h unfolding counts_grow_def by blast
  obtain n'' where 2: "count_of c nm t = Some n''" "n' \<le> n''"
    using assms(2) 1(1) unfolding counts_grow_def by blast
  from 1(2) 2 show "\<exists>n'. count_of c nm t = Some n' \<and> n \<le> n'" by auto
qed

lemma counts_grow_same_stats: "rtcm_stats a' = rtcm_stats a \<Longrightarrow> counts_grow a a'"
  by (simp add: counts_grow_def count_of_def)

lemma count_message_counts: "counts_grow a (count_message nm now msg_type a)"
  unfolding counts_grow_def count_of_def count_message_def Let_def
  by (auto split: option.splits)

lemma merge_satellites_counts: "counts_grow a (merge_satellites nm sat_info sig_info a)"
  by (rule counts_grow_same_stats) (simp add: merge_satellites_def Let_def)

lemma process_frames_counts: "counts_grow a (fst (process_frames nm clock k fs a))"
proof (induction fs arbitrary: k a)
  case Nil
  show ?case by (simp add: counts_grow_refl)
next
  case (Cons parsed rest)
  show ?case
  proof (cases "truthy (getattr parsed ''identity'' PNone)")
    case False
    then show ?thesis using Cons.IH by (simp add: Let_def)
  next
    case True
    let ?a1 = "count_message nm (clock k) (getattr parsed ''identity'' PNone) a"
    show ?thesis
    proof (cases "extract_satellite_info parsed")
      case (Inl e)
      then show ?thesis using True by (simp add: Let_def count_message_counts)
    next
      case (Inr r)
      obtain sat_info sig_info where r: "r = (sat_info, sig_info)" by (cases r)
      have "counts_grow a (merge_satellites nm sat_info sig_info ?a1)"
        using counts_grow_trans [OF count_message_counts merge_satellites_counts] .
      from counts_grow_trans [OF this Cons.IH]
      show ?thesis using True Inr r by (simp add: Let_def)
    qed
  qed
qed

lemma on_data_counts: "counts_grow a (on_data rtcm_reader clock between nm a)"
proof -
  obtain a1 where s: "on_data rtcm_reader clock between nm a =
           a1\<lparr>clients := clients (on_data rtcm_reader clock between nm a)\<rparr>"
    and d: "a1 = a \<or> (\<exists>c. clients a nm = Some c \<and> buffer c \<noteq> [] \<and>
            a1 = fst (process_frames nm clock 0 (frames (rtcm_reader (buffer c))) a))"
    using on_data_shape [of rtcm_reader clock between nm a] by blast
  have "counts_grow a a1"
  proof (rule disjE [OF d])
    assume "a1 = a"
    then show ?thesis by (simp add: counts_grow_refl)
  next
    assume "\<exists>c. clients a nm = Some c \<and> buffer c \<noteq> [] \<and>
            a1 = fst (process_frames nm clock 0 (frames (rtcm_reader (buffer c))) a)"
    then show ?thesis using process_frames_counts by blast
  qed
  moreover have "counts_grow a1 (on_data rtcm_reader clock between nm a)"
    by (subst s, rule counts_grow_same_stats) simp
  ultimately show ?thesis by (rule counts_grow_trans)
qed

text \<open>
  A pass that no exception leaves counts each frame it decodes once: the count of an
  identity goes up by the number of frames of that identity in the pass.
\<close>

lemma count_message_stored:
  "stored_count (count_message nm now t a) nm' t' =
     stored_count a nm' t' + (if nm' = nm \<and> t' = t then 1 else 0)"
  by (auto simp: stored_count_def count_of_def count_message_def Let_def split: option.splits)

lemma merge_satellites_stored:
  "stored_count (merge_satellites nm sat_info sig_info a) nm' t' = stored_count a nm' t'"
  by (simp add: stored_count_def count_of_def merge_satellites_def Let_def)

lemma process_frames_stored:
  "\<not> snd (process_frames nm clock k fs a) \<Longrightarrow>
     stored_count (fst (process_frames nm clock k fs a)) nm' t =
       stored_count a nm' t + (if nm' = nm then int (frames_of t fs) else 0)"
proof (induction fs arbitrary: k a)
  case Nil
  show ?case by (simp add: frames_of_def)
next
  case (Cons parsed rest)
  show ?case
  proof (cases "truthy (getattr parsed ''identity'' PNone)")
    case False
    then have "process_frames nm clock k (parsed # rest) a = process_frames nm clock (Suc k) rest a"
      by (simp add: Let_def)
    moreover have "frames_of t (parsed # rest) = frames_of t rest"
      using False by (auto simp: frames_of_def)
    ultimately show ?thesis using Cons by simp
  next
    case True
    let ?a1 = "count_message nm (clock k) (getattr parsed ''identity'' PNone) a"
    show ?thesis
    proof (cases "extract_satellite_info parsed")
      case (Inl e)
      then show ?thesis using True Cons.prems by (simp add: Let_def)
    next
      case (Inr r)
      obtain sat_info sig_info where r: "r = (sat_info, sig_info)" by (cases r)
      let ?a2 = "merge_satellites nm sat_info sig_info ?a1"
      have p: "process_frames nm clock k (parsed # rest) a = process_frames nm clock (Suc k) rest ?a2"
        using True Inr r by (simp add: Let_def)
      have "stored_count (fst (process_frames nm clock (Suc k) rest ?a2)) nm' t =
          stored_count ?a2 nm' t + (if nm' = nm then int (frames_of t rest) else 0)"
        using Cons.prems unfolding p by (rule Cons.IH)
      moreover have "stored_count ?a2 nm' t =
          stored_count a nm' t + (if nm' = nm \<and> t = getattr parsed ''identity'' PNone then 1 else 0)"
        by (simp add: merge_satellites_stored count_message_stored)
      moreover have "frames_of t (parsed # rest) =
          frames_of t rest + (if t = getattr parsed ''identity'' PNone then 1 else 0)"
        using True by (auto simp: frames_of_def)
      ultimately show ?thesis unfolding p by simp
    qed
  qed
qed

lemma on_data_stored:
  assumes "clients a nm = Some c" and "buffer c \<noteq> []"
    and "\<not> snd (process_frames nm clock 0 (frames (rtcm_reader (buffer c))) a)"
  shows "stored_count (on_data rtcm_reader clock between nm a) nm t =
           stored_count a nm t + int (frames_of t (frames (rtcm_reader (buffer c))))"
proof -
  obtain a1 raised where p: "process_frames nm clock 0 (frames (rtcm_reader (buffer c))) a = (a1, raised)"
    by (cases "process_frames nm clock 0 (frames (rtcm_reader (buffer c))) a")
  have "rtcm_stats (on_data rtcm_reader clock between nm a) = rtcm_stats a1"
    using assms(1,2) p
    by (cases "ending (rtcm_reader (buffer c))") (simp_all add: on_data_def Let_def)
  then have "stored_count (on_data rtcm_reader clock between nm a) nm t = stored_count a1 nm t"
    by (simp add: stored_count_def count_of_def)
  also have "\<dots> = stored_count a nm t + int (frames_of t (frames (rtcm_reader (buffer c))))"
    using process_frames_stored [of nm clock 0 "frames (rtcm_reader (buffer c))" a nm t] assms(3) p
    by simp
  finally show ?thesis .
qed

end
